theory Spec2Isabelle
  imports Complex_Main "HOL-Library.Sublist"
begin

section \<open>JavaScript values read by the monitor\<close>

text \<open>
  The catalog is JSON. A pricing field (\<^verbatim>\<open>pricing.prompt\<close>, \<^verbatim>\<open>pricing.completion\<close>)
  is whatever \<^verbatim>\<open>JSON.parse\<close> produced for it: a string, a number, a boolean,
  \<^verbatim>\<open>null\<close>, or nothing at all (\<^verbatim>\<open>undefined\<close>). Numbers are kept exact
  (rationals); the binary64 rounding of the engine is not modelled, the classifier only
  compares a parsed number with \<open>0\<close>.
\<close>

datatype jsval = JUndefined | JNull | JBool bool | JNum rat | JStr string

datatype jsnum = NaN | PosInf | NegInf | Fin rat

text \<open>Truthiness, as \<^verbatim>\<open>x || '0'\<close> and \<^verbatim>\<open>if (x)\<close> test it.\<close>

fun truthy :: "jsval \<Rightarrow> bool" where
  "truthy JUndefined = False"
| "truthy JNull = False"
| "truthy (JBool b) = b"
| "truthy (JNum r) = (r \<noteq> 0)"
| "truthy (JStr s) = (s \<noteq> [])"

text \<open>\<^verbatim>\<open>a || b\<close> on values.\<close>

definition js_or :: "jsval \<Rightarrow> jsval \<Rightarrow> jsval" where
  "js_or a b = (if truthy a then a else b)"

subsection \<open>\<^verbatim>\<open>parseFloat\<close>\<close>

text \<open>
  \<^verbatim>\<open>parseFloat\<close> converts its argument to a string, skips leading white space and
  reads the longest prefix that is a decimal literal: an optional sign, then
  \<^verbatim>\<open>Infinity\<close> or digits with an optional fraction and an optional exponent. It
  yields \<^verbatim>\<open>NaN\<close> when no such prefix exists and never throws. White space is the
  ASCII part of the engine's white space.
\<close>

definition isWhite :: "char \<Rightarrow> bool" where
  "isWhite c = (c \<in> set [CHR '' '', CHR 0x09, CHR 0x0A, CHR 0x0B, CHR 0x0C, CHR 0x0D])"

definition isDigit :: "char \<Rightarrow> bool" where
  "isDigit c = (c \<in> set ''0123456789'')"

definition digitsValue :: "string \<Rightarrow> nat" where
  "digitsValue ds = foldl (\<lambda>a c. 10 * a + (of_char c - 48)) 0 ds"

text \<open>The exponent part: \<^verbatim>\<open>e\<close> or \<^verbatim>\<open>E\<close>, an optional sign, at least one digit;
  anything else is not part of the literal and counts as exponent \<open>0\<close>.\<close>

definition exponentPart :: "string \<Rightarrow> int" where
  "exponentPart r =
     (case r of
        [] \<Rightarrow> 0
      | c # r1 \<Rightarrow>
          if c = CHR ''e'' \<or> c = CHR ''E'' then
            (case r1 of
               [] \<Rightarrow> 0
             | d # r2 \<Rightarrow>
                 if d = CHR ''-'' then
                   (if takeWhile isDigit r2 = [] then 0 else - int (digitsValue (takeWhile isDigit r2)))
                 else if d = CHR ''+'' then
                   (if takeWhile isDigit r2 = [] then 0 else int (digitsValue (takeWhile isDigit r2)))
                 else
                   (if takeWhile isDigit r1 = [] then 0 else int (digitsValue (takeWhile isDigit r1))))
          else 0)"

definition scale10 :: "rat \<Rightarrow> int \<Rightarrow> rat" where
  "scale10 m e = (if 0 \<le> e then m * 10 ^ nat e else m / 10 ^ nat (- e))"

definition unsignedLiteral :: "string \<Rightarrow> jsnum" where
  "unsignedLiteral s =
     (if prefix ''Infinity'' s then PosInf
      else
        let ip = takeWhile isDigit s;
            r1 = dropWhile isDigit s;
            fp = (case r1 of [] \<Rightarrow> [] | c # r \<Rightarrow> if c = CHR ''.'' then takeWhile isDigit r else []);
            r2 = (case r1 of [] \<Rightarrow> [] | c # r \<Rightarrow> if c = CHR ''.'' then dropWhile isDigit r else r1)
        in if ip = [] \<and> fp = [] then NaN
           else Fin (scale10 (of_nat (digitsValue (ip @ fp))) (exponentPart r2 - int (length fp))))"

fun negate :: "jsnum \<Rightarrow> jsnum" where
  "negate NaN = NaN"
| "negate PosInf = NegInf"
| "negate NegInf = PosInf"
| "negate (Fin r) = Fin (- r)"

definition parseFloatString :: "string \<Rightarrow> jsnum" where
  "parseFloatString s =
     (case dropWhile isWhite s of
        [] \<Rightarrow> NaN
      | c # r \<Rightarrow>
          if c = CHR ''-'' then negate (unsignedLiteral r)
          else if c = CHR ''+'' then unsignedLiteral r
          else unsignedLiteral (c # r))"

text \<open>
  On a non-string the argument is first converted to a string: \<^verbatim>\<open>"undefined"\<close>,
  \<^verbatim>\<open>"null"\<close>, \<^verbatim>\<open>"true"\<close> and \<^verbatim>\<open>"false"\<close> hold no literal; the text of a
  number reads back as that number.
\<close>

fun parseFloat :: "jsval \<Rightarrow> jsnum" where
  "parseFloat (JStr s) = parseFloatString s"
| "parseFloat (JNum r) = Fin r"
| "parseFloat (JBool b) = NaN"
| "parseFloat JNull = NaN"
| "parseFloat JUndefined = NaN"

section \<open>Catalog items\<close>

text \<open>
  One entry of the catalog. \<open>model_id\<close> is the field \<^verbatim>\<open>id\<close>: a string, or \<open>None\<close>
  when the entry has none. \<open>pricing\<close> is \<open>None\<close> when the entry has no pricing
  record. The other fields are carried along and never read by the classifier.
\<close>

record pricing_record =
  prompt :: jsval
  completion :: jsval

record model =
  model_id :: "string option"
  model_name :: "string option"
  pricing :: "pricing_record option"
  context_length :: "nat option"

section \<open>Free-item classifier (\<^verbatim>\<open>identifyFreeModels\<close>)\<close>

text \<open>\<^verbatim>\<open>s.endsWith(p)\<close>\<close>

definition endsWith :: "string \<Rightarrow> string \<Rightarrow> bool" where
  "endsWith s p = (length p \<le> length s \<and> drop (length s - length p) s = p)"

text \<open>\<^verbatim>\<open>parseFloat(field || '0')\<close>\<close>

definition priceOf :: "jsval \<Rightarrow> jsnum" where
  "priceOf field = parseFloat (js_or field (JStr ''0''))"

text \<open>
  The callback given to \<^verbatim>\<open>models.filter\<close>:
  \<^verbatim>\<open>
  if (model.id && model.id.endsWith(':free')) return true;
  if (model.pricing) {
    const promptPrice = parseFloat(model.pricing.prompt || '0');
    const completionPrice = parseFloat(model.pricing.completion || '0');
    if (promptPrice === 0 && completionPrice === 0) return true;
  }
  return false;
  \<close>
\<close>

definition isFree :: "model \<Rightarrow> bool" where
  "isFree m =
     (if (case model_id m of None \<Rightarrow> False | Some i \<Rightarrow> i \<noteq> [] \<and> endsWith i '':free'') then True
      else
        (case pricing m of
           None \<Rightarrow> False
         | Some p \<Rightarrow>
             let promptPrice = priceOf (prompt p);
                 completionPrice = priceOf (completion p)
             in if promptPrice = Fin 0 \<and> completionPrice = Fin 0 then True else False))"

definition identifyFreeModels :: "model list \<Rightarrow> model list" where
  "identifyFreeModels models = filter isFree models"

section \<open>Change detector (\<^verbatim>\<open>detectAndNotifyChanges\<close>)\<close>

text \<open>
  \<^verbatim>\<open>
  const previousIds = new Set(previousFreeModels.map(m => m.id));
  const currentIds = new Set(currentFreeModels.map(m => m.id));
  const addedModels = currentFreeModels.filter(model => !previousIds.has(model.id));
  const removedModels = previousFreeModels.filter(model => !currentIds.has(model.id));
  \<close>
\<close>

definition idSet :: "model list \<Rightarrow> string option set" where
  "idSet ms = set (map model_id ms)"

definition addedModels :: "model list \<Rightarrow> model list \<Rightarrow> model list" where
  "addedModels previousFreeModels currentFreeModels =
     filter (\<lambda>m. model_id m \<notin> idSet previousFreeModels) currentFreeModels"

definition removedModels :: "model list \<Rightarrow> model list \<Rightarrow> model list" where
  "removedModels previousFreeModels currentFreeModels =
     filter (\<lambda>m. model_id m \<notin> idSet currentFreeModels) previousFreeModels"

section \<open>Texts held by the key-value store\<close>

text \<open>
  Every value of the store is a text. A time stamp text is either one that
  \<^verbatim>\<open>Date.parse\<close> reads as an instant (milliseconds since the epoch), which is what
  \<^verbatim>\<open>toISOString\<close> writes, or some other text, for which \<^verbatim>\<open>Date.parse\<close> gives
  \<^verbatim>\<open>NaN\<close>.
\<close>

datatype stamp = DateText int | PlainText string

fun dateParse :: "stamp \<Rightarrow> int option" where
  "dateParse (DateText t) = Some t"
| "dateParse (PlainText s) = None"

fun stampTruthy :: "stamp \<Rightarrow> bool" where
  "stampTruthy (DateText t) = True"
| "stampTruthy (PlainText s) = (s \<noteq> [])"

definition toISOString :: "int \<Rightarrow> stamp" where
  "toISOString t = DateText t"

text \<open>
  A JSON text is empty, or rejected by \<^verbatim>\<open>JSON.parse\<close>, or the text \<^verbatim>\<open>null\<close>, or a
  document. \<^verbatim>\<open>JSON.stringify\<close> of a document \<open>d\<close> is \<open>Json d\<close>.
\<close>

datatype 'a json_text = EmptyText | InvalidJson string | NullJson | Json 'a

record snapshot =
  timestamp :: stamp
  totalModels :: nat
  freeModels :: "model list"
  allModels :: "model list"

text \<open>What \<^verbatim>\<open>models_data\<close> parses to: a snapshot, or an object with no usable
  \<^verbatim>\<open>freeModels\<close> field.\<close>

datatype models_doc = PartialDoc | SnapshotDoc snapshot

record settings =
  monitorInterval :: jsval
  barkBaseUrl :: "string option"

record kvstore =
  models_data :: "models_doc json_text option"
  last_update :: "stamp option"
  last_monitor_trigger :: "stamp option"
  app_settings :: "settings json_text option"

section \<open>The outside world and the effects of a run\<close>

text \<open>
  What the collaborators answer during one invocation of a handler: the catalog API, the
  notification target (per category), the store (a key whose read or write throws, with
  the message), and the clock at the places where the code reads it.
\<close>

datatype catalog_body = BodyUnreadable string | BodyJson "model list option"

datatype catalog_reply = FetchRejected string | HttpReply nat string catalog_body

datatype bark_reply = BarkRejected string | BarkReply nat string

record outside =
  catalog :: catalog_reply
  bark :: "string \<Rightarrow> bark_reply"
  kv_get_error :: "string \<Rightarrow> string option"
  kv_put_error :: "string \<Rightarrow> string option"
  trigger_time :: int
  snapshot_time :: int
  reply_time :: int

text \<open>The worker's environment bindings.\<close>

record bindings =
  BARK_API_URL :: "string option"
  OPENROUTER_API_KEY :: "string option"
  MONITOR_INTERVAL_MINUTES :: "string option"

text \<open>
  The repository holds two revisions of \<^verbatim>\<open>monitor.js\<close>. They differ in
  \<^verbatim>\<open>sendChangeNotification\<close> and \<^verbatim>\<open>sendBarkNotification\<close> only: \<open>RevA\<close> is
  \<^verbatim>\<open>src/worker/monitor.js\<close>, \<open>RevB\<close> is the revision that reads the target from the
  settings and has \<^verbatim>\<open>testBarkNotification\<close>.
\<close>

datatype revision = RevA | RevB

text \<open>
  What is thrown: the error of a catalog reply that is not ok (status, status text), the
  error of an empty catalog, in RevB the error of a notification reply that is not ok,
  and an error of the platform (a rejected fetch, a store failure, a parse error) with
  its message.
\<close>

datatype failure = ApiError nat string | NoModels | BarkFailed nat string | Thrown string

text \<open>
  The body of a notification: the names of the added and of the removed items, or the
  text of an error. The effects of a run, in the order they happen: the catalog GET, a
  read of a key, a write of the snapshot or of a time stamp, a write that failed, a GET
  to the notification target (base URL, category, body), a call of \<^verbatim>\<open>console.error\<close>
  (its first argument). The world is the store and the effects so far.
\<close>

datatype notice = ChangeNotice "string option list" "string option list" | ErrorNotice string

datatype event =
    CatalogGet
  | KvGet string
  | KvPutSnapshot snapshot
  | KvPutStamp string stamp
  | KvPutFailed string
  | BarkGet string string notice
  | ConsoleError string

record world =
  kv :: kvstore
  trace :: "event list"

text \<open>
  The answers: \<^verbatim>\<open>{success: true, totalModels, freeModels, timestamp}\<close>,
  \<^verbatim>\<open>{success: false, error, timestamp}\<close> with status 500, and the plain text answer
  \<^verbatim>\<open>Internal server error: ...\<close> of the \<^verbatim>\<open>fetch\<close> handler. The scheduled handler
  returns nothing; its outcome says which way it went: the run was skipped, the monitor
  ran and answered, or an exception was caught and logged.
\<close>

datatype response = MonitorOk nat nat stamp | MonitorFailed string stamp | InternalError string

datatype scheduled_outcome = Skipped | Ran response | Crashed failure

subsection \<open>Decimal text of a number, error messages\<close>

fun showNat :: "nat \<Rightarrow> string" where
  "showNat n = (if n < 10 then [char_of (48 + n)] else showNat (n div 10) @ [char_of (48 + n mod 10)])"

declare showNat.simps [simp del]

text \<open>\<^verbatim>\<open>error.message\<close>. The label of a failed delivery is the UTF-8 text of the
  source's message.\<close>

definition barkFailedLabel :: string where
  "barkFailedLabel = ''Bark '' @
     [CHR 0xE6, CHR 0x8E, CHR 0xA8, CHR 0xE9, CHR 0x80, CHR 0x81,
      CHR 0xE5, CHR 0xA4, CHR 0xB1, CHR 0xE8, CHR 0xB4, CHR 0xA5] @ '': ''"

fun message :: "failure \<Rightarrow> string" where
  "message (ApiError st txt) = ''OpenRouter API error: '' @ showNat st @ '' '' @ txt"
| "message NoModels = ''No models received from OpenRouter API''"
| "message (BarkFailed st txt) = barkFailedLabel @ showNat st @ '' '' @ txt"
| "message (Thrown msg) = msg"

text \<open>\<^verbatim>\<open>response.ok\<close> of a reply with this status.\<close>

definition statusOk :: "nat \<Rightarrow> bool" where
  "statusOk st = (200 \<le> st \<and> st \<le> 299)"

fun responseOk :: "response \<Rightarrow> bool" where
  "responseOk (MonitorOk t f ts) = True"
| "responseOk (MonitorFailed msg ts) = False"
| "responseOk (InternalError msg) = False"

text \<open>A binding or setting that holds a non-empty text.\<close>

fun configured :: "string option \<Rightarrow> bool" where
  "configured None = False"
| "configured (Some u) = (u \<noteq> [])"

subsection \<open>Computations that change the world and may throw\<close>

type_synonym 'a job = "world \<Rightarrow> (failure + 'a) \<times> world"

definition ret :: "'a \<Rightarrow> 'a job" where
  "ret x w = (Inr x, w)"

definition throw :: "failure \<Rightarrow> 'a job" where
  "throw e w = (Inl e, w)"

definition bnd :: "'a job \<Rightarrow> ('a \<Rightarrow> 'b job) \<Rightarrow> 'b job" where
  "bnd m f w = (case m w of (Inl e, w') \<Rightarrow> (Inl e, w') | (Inr x, w') \<Rightarrow> f x w')"

definition seq :: "unit job \<Rightarrow> 'b job \<Rightarrow> 'b job" where
  "seq m n = bnd m (\<lambda>u. n)"

definition catch :: "'a job \<Rightarrow> (failure \<Rightarrow> 'a job) \<Rightarrow> 'a job" where
  "catch m h w = (case m w of (Inl e, w') \<Rightarrow> h e w' | (Inr x, w') \<Rightarrow> (Inr x, w'))"

definition emit :: "event \<Rightarrow> unit job" where
  "emit ev w = (Inr (), w\<lparr>trace := trace w @ [ev]\<rparr>)"

text \<open>\<^verbatim>\<open>kv.get(key)\<close>: \<open>field\<close> selects the key's value.\<close>

definition kvGet :: "outside \<Rightarrow> string \<Rightarrow> (kvstore \<Rightarrow> 'a) \<Rightarrow> 'a job" where
  "kvGet out key field =
     seq (emit (KvGet key))
       (case kv_get_error out key of
          Some msg \<Rightarrow> throw (Thrown msg)
        | None \<Rightarrow> (\<lambda>w. (Inr (field (kv w)), w)))"

text \<open>\<^verbatim>\<open>Promise.all([kv.get(key1), kv.get(key2)])\<close>: both reads are issued, and the
  result is a failure when one of them fails.\<close>

definition kvGetBoth ::
    "outside \<Rightarrow> string \<Rightarrow> (kvstore \<Rightarrow> 'a) \<Rightarrow> string \<Rightarrow> (kvstore \<Rightarrow> 'b) \<Rightarrow> ('a \<times> 'b) job" where
  "kvGetBoth out key1 field1 key2 field2 =
     seq (emit (KvGet key1))
       (seq (emit (KvGet key2))
          (case kv_get_error out key1 of
             Some msg \<Rightarrow> throw (Thrown msg)
           | None \<Rightarrow>
               (case kv_get_error out key2 of
                  Some msg \<Rightarrow> throw (Thrown msg)
                | None \<Rightarrow> (\<lambda>w. (Inr (field1 (kv w), field2 (kv w)), w)))))"

text \<open>\<^verbatim>\<open>kv.put(key, value)\<close>: \<open>ev\<close> records the write, \<open>upd\<close> performs it.\<close>

definition kvPut :: "outside \<Rightarrow> string \<Rightarrow> event \<Rightarrow> (kvstore \<Rightarrow> kvstore) \<Rightarrow> unit job" where
  "kvPut out key ev upd =
     (case kv_put_error out key of
        Some msg \<Rightarrow> seq (emit (KvPutFailed key)) (throw (Thrown msg))
      | None \<Rightarrow> (\<lambda>w. (Inr (), w\<lparr>kv := upd (kv w), trace := trace w @ [ev]\<rparr>)))"

section \<open>The monitor (\<^verbatim>\<open>ModelMonitor\<close>)\<close>

text \<open>
  \<^verbatim>\<open>fetchOpenRouterModels\<close>: one GET; a rejected fetch throws the platform's error, a
  reply that is not ok throws \<^verbatim>\<open>OpenRouter API error: <status> <statusText>\<close>, a body
  that cannot be read throws, and \<^verbatim>\<open>data.data || []\<close> is returned otherwise.
\<close>

definition fetchOpenRouterModels :: "outside \<Rightarrow> model list job" where
  "fetchOpenRouterModels out =
     seq (emit CatalogGet)
       (case catalog out of
          FetchRejected msg \<Rightarrow> throw (Thrown msg)
        | HttpReply st txt body \<Rightarrow>
            if \<not> statusOk st then throw (ApiError st txt)
            else (case body of
                    BodyUnreadable msg \<Rightarrow> throw (Thrown msg)
                  | BodyJson None \<Rightarrow> ret []
                  | BodyJson (Some ms) \<Rightarrow> ret ms))"

text \<open>
  \<^verbatim>\<open>getPreviousModelsData\<close>:
  \<^verbatim>\<open>
  try { const data = await this.kv.get('models_data');
        return data ? JSON.parse(data) : null; }
  catch (error) { console.error(...); return null; }
  \<close>
\<close>

definition getPreviousModelsData :: "outside \<Rightarrow> models_doc option job" where
  "getPreviousModelsData out =
     catch
       (bnd (kvGet out ''models_data'' models_data)
          (\<lambda>data. case data of
                     None \<Rightarrow> ret None
                   | Some EmptyText \<Rightarrow> ret None
                   | Some (InvalidJson msg) \<Rightarrow> throw (Thrown msg)
                   | Some NullJson \<Rightarrow> ret None
                   | Some (Json d) \<Rightarrow> ret (Some d)))
       (\<lambda>error. seq (emit (ConsoleError ''Error retrieving previous models data:'')) (ret None))"

text \<open>
  \<^verbatim>\<open>storeModelsData\<close>: two writes, \<^verbatim>\<open>models_data\<close> then \<^verbatim>\<open>last_update\<close>; a failure
  is logged and thrown again.
\<close>

definition storeModelsData :: "outside \<Rightarrow> snapshot \<Rightarrow> unit job" where
  "storeModelsData out data =
     catch
       (seq (kvPut out ''models_data'' (KvPutSnapshot data)
               (\<lambda>k. k\<lparr>models_data := Some (Json (SnapshotDoc data))\<rparr>))
            (kvPut out ''last_update'' (KvPutStamp ''last_update'' (timestamp data))
               (\<lambda>k. k\<lparr>last_update := Some (timestamp data)\<rparr>)))
       (\<lambda>error. seq (emit (ConsoleError ''Error storing models data:'')) (throw error))"

text \<open>\<^verbatim>\<open>getBarkUrlFromSettings\<close> (RevB): the \<^verbatim>\<open>barkBaseUrl\<close> of the stored settings, or
  \<^verbatim>\<open>null\<close>; every failure gives \<^verbatim>\<open>null\<close>.\<close>

definition getBarkUrlFromSettings :: "outside \<Rightarrow> string option job" where
  "getBarkUrlFromSettings out =
     catch
       (bnd (kvGet out ''app_settings'' app_settings)
          (\<lambda>settings. case settings of
                     None \<Rightarrow> ret None
                   | Some EmptyText \<Rightarrow> ret None
                   | Some (InvalidJson msg) \<Rightarrow> throw (Thrown msg)
                   | Some NullJson \<Rightarrow> throw (Thrown ''TypeError'')
                   | Some (Json st) \<Rightarrow>
                       ret (if configured (barkBaseUrl st) then barkBaseUrl st else None)))
       (\<lambda>error. seq (emit (ConsoleError ''Error getting Bark URL from settings:'')) (ret None))"

text \<open>The base of the notification URL: RevB appends \<^verbatim>\<open>/\<close> when it is missing.\<close>

definition baseUrl :: "revision \<Rightarrow> string \<Rightarrow> string" where
  "baseUrl rv u = (case rv of RevA \<Rightarrow> u | RevB \<Rightarrow> if endsWith u ''/'' then u else u @ ''/'')"

text \<open>
  \<^verbatim>\<open>sendBarkNotification\<close>, called with \<^verbatim>\<open>this.barkUrl\<close> as \<open>barkUrl\<close>. One GET. In
  RevA a reply that is not ok and a rejected fetch are logged. In RevB the reply that is
  not ok is logged and thrown, and the \<^verbatim>\<open>catch\<close> logs and throws again.
\<close>

definition sendBarkNotification ::
    "revision \<Rightarrow> outside \<Rightarrow> string option \<Rightarrow> notice \<Rightarrow> string \<Rightarrow> unit job" where
  "sendBarkNotification rv out barkUrl body category =
     (case barkUrl of
        None \<Rightarrow> ret ()
      | Some u \<Rightarrow>
          if u = [] then ret ()
          else
            catch
              (seq (emit (BarkGet (baseUrl rv u) category body))
                 (case bark out category of
                    BarkRejected msg \<Rightarrow> throw (Thrown msg)
                  | BarkReply st txt \<Rightarrow>
                      if \<not> statusOk st then
                        seq (emit (ConsoleError ''Bark notification failed:''))
                          (case rv of RevA \<Rightarrow> ret () | RevB \<Rightarrow> throw (BarkFailed st txt))
                      else ret ()))
              (\<lambda>error. seq (emit (ConsoleError ''Error sending Bark notification:''))
                         (case rv of RevA \<Rightarrow> ret () | RevB \<Rightarrow> throw error)))"

text \<open>\<^verbatim>\<open>model.name || model.id\<close>\<close>

definition displayName :: "model \<Rightarrow> string option" where
  "displayName m = (if configured (model_name m) then model_name m else model_id m)"

text \<open>
  \<^verbatim>\<open>sendChangeNotification\<close>. RevA uses the binding \<^verbatim>\<open>BARK_API_URL\<close>; RevB falls back
  to the settings, and puts the URL it found into \<^verbatim>\<open>this.barkUrl\<close> for the one call.
  The message lists the names of the added and of the removed items; its wording is not
  modelled.
\<close>

definition sendChangeNotification ::
    "revision \<Rightarrow> bindings \<Rightarrow> outside \<Rightarrow> model list \<Rightarrow> model list \<Rightarrow> unit job" where
  "sendChangeNotification rv env out added removed =
     bnd (case rv of
            RevA \<Rightarrow> ret (BARK_API_URL env)
          | RevB \<Rightarrow> if configured (BARK_API_URL env) then ret (BARK_API_URL env)
                    else getBarkUrlFromSettings out)
       (\<lambda>barkUrl.
          if \<not> configured barkUrl then ret ()
          else sendBarkNotification rv out barkUrl
                 (ChangeNotice (map displayName added) (map displayName removed)) ''update'')"

definition detectAndNotifyChanges ::
    "revision \<Rightarrow> bindings \<Rightarrow> outside \<Rightarrow> model list \<Rightarrow> model list \<Rightarrow> unit job" where
  "detectAndNotifyChanges rv env out previousFreeModels currentFreeModels =
     (let added = addedModels previousFreeModels currentFreeModels;
          removed = removedModels previousFreeModels currentFreeModels
      in if added \<noteq> [] \<or> removed \<noteq> [] then sendChangeNotification rv env out added removed
         else ret ())"

text \<open>
  \<^verbatim>\<open>runMonitoring\<close>: fetch, load the previous snapshot, classify, store, compare when
  \<^verbatim>\<open>previousData && previousData.freeModels\<close>, answer. Whatever is thrown on the way
  is caught: logged, notified with category \<^verbatim>\<open>error\<close> when \<^verbatim>\<open>this.barkUrl\<close> is set,
  and answered with status 500.
\<close>

definition runMonitoring :: "revision \<Rightarrow> bindings \<Rightarrow> outside \<Rightarrow> response job" where
  "runMonitoring rv env out =
     catch
       (bnd (fetchOpenRouterModels out)
          (\<lambda>currentModels.
             if currentModels = [] then throw NoModels
             else
               bnd (getPreviousModelsData out)
                 (\<lambda>previousData.
                    let currentFreeModels = identifyFreeModels currentModels
                    in seq (storeModelsData out
                              \<lparr>timestamp = toISOString (snapshot_time out),
                               totalModels = length currentModels,
                               freeModels = currentFreeModels,
                               allModels = currentModels\<rparr>)
                         (seq (case previousData of
                                 Some (SnapshotDoc prev) \<Rightarrow>
                                   detectAndNotifyChanges rv env out (freeModels prev) currentFreeModels
                               | Some PartialDoc \<Rightarrow> ret ()
                               | None \<Rightarrow> ret ())
                            (ret (MonitorOk (length currentModels) (length currentFreeModels)
                                    (toISOString (reply_time out))))))))
       (\<lambda>error.
          seq (emit (ConsoleError ''Monitoring error:''))
            (seq (if configured (BARK_API_URL env)
                  then sendBarkNotification rv out (BARK_API_URL env)
                         (ErrorNotice (''Monitoring failed: '' @ message error)) ''error''
                  else ret ())
               (ret (MonitorFailed (message error) (toISOString (reply_time out))))))"

section \<open>The worker's handlers (\<^verbatim>\<open>index.js\<close>)\<close>

subsection \<open>\<^verbatim>\<open>parseInt(x, 10)\<close>\<close>

text \<open>White space, an optional sign, then digits up to the first other character;
  \<open>None\<close> is \<^verbatim>\<open>NaN\<close>.\<close>

definition parseIntString :: "string \<Rightarrow> int option" where
  "parseIntString s =
     (case dropWhile isWhite s of
        [] \<Rightarrow> None
      | c # r \<Rightarrow>
          if c = CHR ''-'' then
            (if takeWhile isDigit r = [] then None else Some (- int (digitsValue (takeWhile isDigit r))))
          else if c = CHR ''+'' then
            (if takeWhile isDigit r = [] then None else Some (int (digitsValue (takeWhile isDigit r))))
          else
            (if takeWhile isDigit (c # r) = [] then None
             else Some (int (digitsValue (takeWhile isDigit (c # r))))))"

text \<open>On a number \<^verbatim>\<open>parseInt\<close> reads the number's text; for a number written in decimal
  notation (magnitude from \<open>10\<^sup>-\<^sup>6\<close> up to \<open>10\<^sup>2\<^sup>1\<close>, or zero) that is its integer
  part.\<close>

fun parseInt :: "jsval \<Rightarrow> int option" where
  "parseInt (JStr s) = parseIntString s"
| "parseInt (JNum r) = Some (if 0 \<le> r then \<lfloor>r\<rfloor> else \<lceil>r\<rceil>)"
| "parseInt (JBool b) = None"
| "parseInt JNull = None"
| "parseInt JUndefined = None"

subsection \<open>The throttle of \<^verbatim>\<open>scheduled\<close>\<close>

text \<open>
  The interval asked for, before clamping: 5, replaced by the binding
  \<^verbatim>\<open>MONITOR_INTERVAL_MINUTES\<close> when it is set and \<^verbatim>\<open>parseInt\<close> reads it, replaced by
  the stored setting \<^verbatim>\<open>monitorInterval\<close> when the settings parse, the field is truthy
  and \<^verbatim>\<open>parseInt\<close> reads it.
\<close>

definition envInterval :: "bindings \<Rightarrow> int" where
  "envInterval env =
     (case MONITOR_INTERVAL_MINUTES env of
        None \<Rightarrow> 5
      | Some text \<Rightarrow>
          if text = [] then 5
          else (case parseIntString text of None \<Rightarrow> 5 | Some envInterval \<Rightarrow> envInterval))"

definition settingsInterval :: "int \<Rightarrow> settings json_text option \<Rightarrow> int" where
  "settingsInterval intervalMinutes settingsRaw =
     (case settingsRaw of
        Some (Json st) \<Rightarrow>
          if truthy (monitorInterval st)
          then (case parseInt (monitorInterval st) of
                  None \<Rightarrow> intervalMinutes | Some parsedInterval \<Rightarrow> parsedInterval)
          else intervalMinutes
      | Some NullJson \<Rightarrow> intervalMinutes
      | Some (InvalidJson msg) \<Rightarrow> intervalMinutes
      | Some EmptyText \<Rightarrow> intervalMinutes
      | None \<Rightarrow> intervalMinutes)"

text \<open>\<^verbatim>\<open>Math.min(Math.max(intervalMinutes, 1), 60)\<close>\<close>

definition clampInterval :: "int \<Rightarrow> int" where
  "clampInterval intervalMinutes = min (max intervalMinutes 1) 60"

text \<open>
  The loop over \<^verbatim>\<open>[lastTriggerRaw, lastUpdateRaw]\<close>; \<open>None\<close> is \<^verbatim>\<open>undefined\<close>:
  \<^verbatim>\<open>
  if (!value) continue;
  const parsed = Date.parse(value);
  if (!Number.isNaN(parsed)) {
    if (!lastRunTimestamp || parsed > lastRunTimestamp) lastRunTimestamp = parsed;
  }
  \<close>
  \<^verbatim>\<open>!lastRunTimestamp\<close> holds for \<^verbatim>\<open>undefined\<close> and for \<open>0\<close>.
\<close>

definition lastRunStep :: "int option \<Rightarrow> stamp option \<Rightarrow> int option" where
  "lastRunStep lastRunTimestamp v =
     (case v of
        None \<Rightarrow> lastRunTimestamp
      | Some text \<Rightarrow>
          if \<not> stampTruthy text then lastRunTimestamp
          else (case dateParse text of
                  None \<Rightarrow> lastRunTimestamp
                | Some parsed \<Rightarrow>
                    (case lastRunTimestamp of
                       None \<Rightarrow> Some parsed
                     | Some t \<Rightarrow> if t = 0 \<or> parsed > t then Some parsed else Some t)))"

definition lastRun :: "stamp option \<Rightarrow> stamp option \<Rightarrow> int option" where
  "lastRun lastTriggerRaw lastUpdateRaw = foldl lastRunStep None [lastTriggerRaw, lastUpdateRaw]"

text \<open>
  The decision: the run is skipped when \<^verbatim>\<open>lastRunTimestamp\<close> is truthy (neither
  \<^verbatim>\<open>undefined\<close> nor \<open>0\<close>) and \<^verbatim>\<open>now - lastRunTimestamp < intervalMs\<close>.
\<close>

definition shouldRun :: "int \<Rightarrow> stamp option \<Rightarrow> stamp option \<Rightarrow> int \<Rightarrow> bool" where
  "shouldRun now lastTriggerRaw lastUpdateRaw intervalMinutes =
     (let intervalMs = clampInterval intervalMinutes * 60 * 1000;
          lastRunTimestamp = lastRun lastTriggerRaw lastUpdateRaw
      in case lastRunTimestamp of
           None \<Rightarrow> True
         | Some t \<Rightarrow> if t \<noteq> 0 \<and> now - t < intervalMs then False else True)"

text \<open>
  \<^verbatim>\<open>scheduled\<close>: read the settings, read both time stamps (\<^verbatim>\<open>Promise.all\<close>), decide;
  when the run is accepted, write \<^verbatim>\<open>last_monitor_trigger\<close>, then run the monitor. Every
  exception is caught and logged.
\<close>

definition scheduled :: "revision \<Rightarrow> bindings \<Rightarrow> outside \<Rightarrow> scheduled_outcome job" where
  "scheduled rv env out =
     catch
       (bnd (kvGet out ''app_settings'' app_settings)
          (\<lambda>settingsRaw.
             let intervalMinutes = settingsInterval (envInterval env) settingsRaw
             in bnd (kvGetBoth out ''last_monitor_trigger'' last_monitor_trigger
                       ''last_update'' last_update)
                  (\<lambda>(lastTriggerRaw, lastUpdateRaw).
                     let now = trigger_time out
                     in if \<not> shouldRun now lastTriggerRaw lastUpdateRaw intervalMinutes
                        then ret Skipped
                        else
                          seq (kvPut out ''last_monitor_trigger''
                                 (KvPutStamp ''last_monitor_trigger'' (toISOString now))
                                 (\<lambda>k. k\<lparr>last_monitor_trigger := Some (toISOString now)\<rparr>))
                            (bnd (runMonitoring rv env out)
                               (\<lambda>response.
                                  seq (if \<not> responseOk response
                                       then emit (ConsoleError ''Scheduled monitoring run returned status'')
                                       else ret ())
                                    (ret (Ran response)))))))
       (\<lambda>error. seq (emit (ConsoleError ''Scheduled monitoring error:'')) (ret (Crashed error)))"

text \<open>
  The route \<^verbatim>\<open>/api/monitor/run\<close> of \<^verbatim>\<open>fetch\<close>:
  \<^verbatim>\<open>return await monitor.runMonitoring();\<close> inside the handler's \<^verbatim>\<open>try\<close>, whose
  \<^verbatim>\<open>catch\<close> answers \<^verbatim>\<open>Internal server error: <message>\<close>.
\<close>

definition fetchMonitorRun :: "revision \<Rightarrow> bindings \<Rightarrow> outside \<Rightarrow> response job" where
  "fetchMonitorRun rv env out =
     catch (runMonitoring rv env out)
       (\<lambda>error. seq (emit (ConsoleError ''Worker error:''))
                  (ret (InternalError (''Internal server error: '' @ message error))))"
section \<open>Auxiliary definitions for the proofs\<close>

text \<open>
  The blocks of \<^verbatim>\<open>runMonitoring\<close> under their own names: the snapshot it builds, the
  part of the \<^verbatim>\<open>try\<close> block after the previous data was loaded, and the
  \<^verbatim>\<open>catch\<close> block.
\<close>

definition newSnapshot :: "outside \<Rightarrow> model list \<Rightarrow> snapshot" where
  "newSnapshot out currentModels =
     \<lparr>timestamp = toISOString (snapshot_time out),
      totalModels = length currentModels,
      freeModels = identifyFreeModels currentModels,
      allModels = currentModels\<rparr>"

definition afterLoad ::
    "revision \<Rightarrow> bindings \<Rightarrow> outside \<Rightarrow> model list \<Rightarrow> models_doc option \<Rightarrow> response job" where
  "afterLoad rv env out currentModels previousData =
     seq (storeModelsData out (newSnapshot out currentModels))
       (seq (case previousData of
               Some (SnapshotDoc prev) \<Rightarrow>
                 detectAndNotifyChanges rv env out (freeModels prev) (identifyFreeModels currentModels)
             | Some PartialDoc \<Rightarrow> ret ()
             | None \<Rightarrow> ret ())
          (ret (MonitorOk (length currentModels) (length (identifyFreeModels currentModels))
                  (toISOString (reply_time out)))))"

definition monitoringError :: "revision \<Rightarrow> bindings \<Rightarrow> outside \<Rightarrow> failure \<Rightarrow> response job" where
  "monitoringError rv env out error =
     seq (emit (ConsoleError ''Monitoring error:''))
       (seq (if configured (BARK_API_URL env)
             then sendBarkNotification rv out (BARK_API_URL env)
                    (ErrorNotice (''Monitoring failed: '' @ message error)) ''error''
             else ret ())
          (ret (MonitorFailed (message error) (toISOString (reply_time out)))))"

text \<open>
  What the simple operations give, as functions of the outside world and the store: the
  result of the catalog fetch, the previous data that is loaded and the events of loading
  it, the result and the events of one notification.
\<close>

definition fetchOutcome :: "outside \<Rightarrow> failure + model list" where
  "fetchOutcome out =
     (case catalog out of
        FetchRejected msg \<Rightarrow> Inl (Thrown msg)
      | HttpReply st txt body \<Rightarrow>
          if \<not> statusOk st then Inl (ApiError st txt)
          else (case body of
                  BodyUnreadable msg \<Rightarrow> Inl (Thrown msg)
                | BodyJson None \<Rightarrow> Inr []
                | BodyJson (Some ms) \<Rightarrow> Inr ms))"

definition loadOutcome :: "outside \<Rightarrow> kvstore \<Rightarrow> models_doc option" where
  "loadOutcome out k =
     (case kv_get_error out ''models_data'' of
        Some msg \<Rightarrow> None
      | None \<Rightarrow> (case models_data k of Some (Json d) \<Rightarrow> Some d | _ \<Rightarrow> None))"

definition loadEvents :: "outside \<Rightarrow> kvstore \<Rightarrow> event list" where
  "loadEvents out k =
     KvGet ''models_data'' #
     (case kv_get_error out ''models_data'' of
        Some msg \<Rightarrow> [ConsoleError ''Error retrieving previous models data:'']
      | None \<Rightarrow> (case models_data k of
                   Some (InvalidJson msg) \<Rightarrow> [ConsoleError ''Error retrieving previous models data:'']
                 | _ \<Rightarrow> []))"

definition barkOutcome :: "revision \<Rightarrow> outside \<Rightarrow> string option \<Rightarrow> string \<Rightarrow> failure + unit" where
  "barkOutcome rv out barkUrl category =
     (if \<not> configured barkUrl then Inr ()
      else (case rv of
              RevA \<Rightarrow> Inr ()
            | RevB \<Rightarrow> (case bark out category of
                         BarkRejected msg \<Rightarrow> Inl (Thrown msg)
                       | BarkReply st txt \<Rightarrow> if statusOk st then Inr () else Inl (BarkFailed st txt))))"

definition barkEvents :: "revision \<Rightarrow> outside \<Rightarrow> string option \<Rightarrow> notice \<Rightarrow> string \<Rightarrow> event list" where
  "barkEvents rv out barkUrl body category =
     (if \<not> configured barkUrl then []
      else BarkGet (baseUrl rv (the barkUrl)) category body #
           (case bark out category of
              BarkRejected msg \<Rightarrow> [ConsoleError ''Error sending Bark notification:'']
            | BarkReply st txt \<Rightarrow>
                if statusOk st then []
                else (case rv of
                        RevA \<Rightarrow> [ConsoleError ''Bark notification failed:'']
                      | RevB \<Rightarrow> [ConsoleError ''Bark notification failed:'',
                                 ConsoleError ''Error sending Bark notification:''])))"

text \<open>The world after more events, and the events a computation added.\<close>

definition logged :: "world \<Rightarrow> event list \<Rightarrow> world" where
  "logged w evs = w\<lparr>trace := trace w @ evs\<rparr>"

definition newEvents :: "world \<Rightarrow> world \<Rightarrow> event list" where
  "newEvents w w' = drop (length (trace w)) (trace w')"

text \<open>
  A computation keeps \<open>P f Q\<close> when every event it adds satisfies \<open>P\<close> and the part
  \<open>f\<close> of the store is left as it was or ends in a value that satisfies \<open>Q\<close>.
\<close>

definition steps :: "(event \<Rightarrow> bool) \<Rightarrow> (kvstore \<Rightarrow> 'v) \<Rightarrow> ('v \<Rightarrow> bool) \<Rightarrow> world \<Rightarrow> world \<Rightarrow> bool" where
  "steps P f Q w w' =
     ((\<exists>evs. trace w' = trace w @ evs \<and> list_all P evs) \<and> (f (kv w') = f (kv w) \<or> Q (f (kv w'))))"

definition keeps :: "(event \<Rightarrow> bool) \<Rightarrow> (kvstore \<Rightarrow> 'v) \<Rightarrow> ('v \<Rightarrow> bool) \<Rightarrow> 'a job \<Rightarrow> bool" where
  "keeps P f Q m = (\<forall>w. steps P f Q w (snd (m w)))"

text \<open>The events of \<^verbatim>\<open>storeModelsData\<close> and of a whole monitoring run.\<close>

definition storeEvent :: "snapshot \<Rightarrow> event \<Rightarrow> bool" where
  "storeEvent data e =
     (e = KvPutSnapshot data \<or> e = KvPutStamp ''last_update'' (timestamp data)
      \<or> e = KvPutFailed ''models_data'' \<or> e = KvPutFailed ''last_update'')"

definition monitorEvent :: "outside \<Rightarrow> event \<Rightarrow> bool" where
  "monitorEvent out e =
     (case e of
        CatalogGet \<Rightarrow> True
      | KvGet key \<Rightarrow> key = ''models_data'' \<or> key = ''app_settings''
      | KvPutSnapshot s \<Rightarrow> s = newSnapshot out (allModels s)
      | KvPutStamp key v \<Rightarrow> key = ''last_update'' \<and> v = toISOString (snapshot_time out)
      | KvPutFailed key \<Rightarrow> key = ''models_data'' \<or> key = ''last_update''
      | BarkGet u category body \<Rightarrow> category = ''update'' \<or> category = ''error''
      | ConsoleError s \<Rightarrow> True)"

text \<open>
  The target of a change notification and the events of finding it: the binding, or in
  RevB the stored setting when the binding is not set. The notice of a change. The world
  after a successful fetch, load and store, with further events.
\<close>

definition settingsTarget :: "outside \<Rightarrow> kvstore \<Rightarrow> string option" where
  "settingsTarget out k =
     (case kv_get_error out ''app_settings'' of
        Some msg \<Rightarrow> None
      | None \<Rightarrow> (case app_settings k of
                   Some (Json st) \<Rightarrow> if configured (barkBaseUrl st) then barkBaseUrl st else None
                 | _ \<Rightarrow> None))"

definition settingsTargetEvents :: "outside \<Rightarrow> kvstore \<Rightarrow> event list" where
  "settingsTargetEvents out k =
     KvGet ''app_settings'' #
     (case kv_get_error out ''app_settings'' of
        Some msg \<Rightarrow> [ConsoleError ''Error getting Bark URL from settings:'']
      | None \<Rightarrow> (case app_settings k of
                   Some (InvalidJson msg) \<Rightarrow> [ConsoleError ''Error getting Bark URL from settings:'']
                 | Some NullJson \<Rightarrow> [ConsoleError ''Error getting Bark URL from settings:'']
                 | _ \<Rightarrow> []))"

definition changeTarget :: "revision \<Rightarrow> bindings \<Rightarrow> outside \<Rightarrow> kvstore \<Rightarrow> string option" where
  "changeTarget rv env out k =
     (case rv of
        RevA \<Rightarrow> BARK_API_URL env
      | RevB \<Rightarrow> if configured (BARK_API_URL env) then BARK_API_URL env else settingsTarget out k)"

definition targetEvents :: "revision \<Rightarrow> bindings \<Rightarrow> outside \<Rightarrow> kvstore \<Rightarrow> event list" where
  "targetEvents rv env out k =
     (case rv of
        RevA \<Rightarrow> []
      | RevB \<Rightarrow> if configured (BARK_API_URL env) then [] else settingsTargetEvents out k)"

definition changeNotice :: "model list \<Rightarrow> model list \<Rightarrow> notice" where
  "changeNotice previousFreeModels currentFreeModels =
     ChangeNotice (map displayName (addedModels previousFreeModels currentFreeModels))
                  (map displayName (removedModels previousFreeModels currentFreeModels))"

definition storedWorld :: "outside \<Rightarrow> model list \<Rightarrow> world \<Rightarrow> event list \<Rightarrow> world" where
  "storedWorld out ms w evs =
     w\<lparr>kv := (kv w)\<lparr>models_data := Some (Json (SnapshotDoc (newSnapshot out ms))),
                      last_update := Some (toISOString (snapshot_time out))\<rparr>,
        trace := trace w @ CatalogGet # loadEvents out (kv w) @
                   [KvPutSnapshot (newSnapshot out ms),
                    KvPutStamp ''last_update'' (toISOString (snapshot_time out))] @ evs\<rparr>"

text \<open>
  The parts of \<^verbatim>\<open>scheduled\<close>: the three reads it starts with, the interval it asks
  for, the world after an accepted run wrote \<^verbatim>\<open>last_monitor_trigger\<close>, and what it does
  with the outcome of the monitoring run. \<open>readsFail\<close> says that one of the three reads
  throws.
\<close>

definition readEvents :: "event list" where
  "readEvents = [KvGet ''app_settings'', KvGet ''last_monitor_trigger'', KvGet ''last_update'']"

definition configuredInterval :: "bindings \<Rightarrow> kvstore \<Rightarrow> int" where
  "configuredInterval env k = settingsInterval (envInterval env) (app_settings k)"

definition acceptedWorld :: "outside \<Rightarrow> world \<Rightarrow> world" where
  "acceptedWorld out w =
     w\<lparr>kv := (kv w)\<lparr>last_monitor_trigger := Some (toISOString (trigger_time out))\<rparr>,
        trace := trace w @ readEvents @
                   [KvPutStamp ''last_monitor_trigger'' (toISOString (trigger_time out))]\<rparr>"

definition scheduledTail ::
    "(failure + response) \<times> world \<Rightarrow> (failure + scheduled_outcome) \<times> world" where
  "scheduledTail rw =
     (case fst rw of
        Inl e \<Rightarrow> (Inr (Crashed e), logged (snd rw) [ConsoleError ''Scheduled monitoring error:''])
      | Inr response \<Rightarrow>
          (Inr (Ran response),
           if responseOk response then snd rw
           else logged (snd rw) [ConsoleError ''Scheduled monitoring run returned status'']))"

definition readsFail :: "outside \<Rightarrow> bool" where
  "readsFail out =
     (kv_get_error out ''app_settings'' \<noteq> None \<or> kv_get_error out ''last_monitor_trigger'' \<noteq> None
      \<or> kv_get_error out ''last_update'' \<noteq> None)"

section \<open>Reference definitions, following the specification\<close>

text \<open>
  The three rules of the classifier as the specification words them: the identifier ends
  with \<^verbatim>\<open>:free\<close>; or a pricing record is present and both cost fields parse to \<open>0\<close>;
  otherwise not free.
\<close>

definition hasFreeSuffix :: "model \<Rightarrow> bool" where
  "hasFreeSuffix m = (case model_id m of None \<Rightarrow> False | Some i \<Rightarrow> suffix '':free'' i)"

definition parsesToZero :: "jsval \<Rightarrow> bool" where
  "parsesToZero field = (priceOf field = Fin 0)"

definition isFree_rules :: "model \<Rightarrow> bool" where
  "isFree_rules m =
     (if hasFreeSuffix m then True
      else if (case pricing m of
                 None \<Rightarrow> False
               | Some p \<Rightarrow> parsesToZero (prompt p) \<and> parsesToZero (completion p)) then True
      else False)"

text \<open>The invariant of a snapshot: its free items are the free items of its full list,
  in that order, and its count is the length of the full list.\<close>

definition snapshotInvariant :: "snapshot \<Rightarrow> bool" where
  "snapshotInvariant s =
     (freeModels s = filter isFree (allModels s) \<and> totalModels s = length (allModels s))"

text \<open>
  No previous snapshot: the read of \<^verbatim>\<open>models_data\<close> throws, or nothing is stored under
  the key, or what is stored is empty, not JSON, or \<^verbatim>\<open>null\<close>.
\<close>

definition noPreviousSnapshot :: "outside \<Rightarrow> kvstore \<Rightarrow> bool" where
  "noPreviousSnapshot out k =
     (kv_get_error out ''models_data'' \<noteq> None
      \<or> (case models_data k of
            None \<Rightarrow> True
          | Some EmptyText \<Rightarrow> True
          | Some (InvalidJson msg) \<Rightarrow> True
          | Some NullJson \<Rightarrow> True
          | Some (Json d) \<Rightarrow> False))"

text \<open>Notification events; a change notification is one of category \<^verbatim>\<open>update\<close>.\<close>

fun isChangeNotification :: "event \<Rightarrow> bool" where
  "isChangeNotification (BarkGet u category body) = (category = ''update'')"
| "isChangeNotification e = False"

fun isNotification :: "event \<Rightarrow> bool" where
  "isNotification (BarkGet u category body) = True"
| "isNotification e = False"

text \<open>
  The throttle as the specification words it: a stored time stamp is absent when the key
  is missing or its text is no date; the last run is the later of the two stamps, absent
  ones ignored; the interval is clamped to \<open>[1, 60]\<close>; a run is accepted when no last
  run exists or at least the interval has passed since.
\<close>

definition stampValue :: "stamp option \<Rightarrow> int option" where
  "stampValue v = (case v of None \<Rightarrow> None | Some text \<Rightarrow> dateParse text)"



text \<open>
  The failure of the catalog fetch, when it fails by a rejected request or by a reply
  whose status is not a success; events that write to the store.
\<close>

definition fetchFailure :: "outside \<Rightarrow> failure option" where
  "fetchFailure out =
     (case catalog out of
        FetchRejected msg \<Rightarrow> Some (Thrown msg)
      | HttpReply st txt body \<Rightarrow> if \<not> statusOk st then Some (ApiError st txt) else None)"

fun isWrite :: "event \<Rightarrow> bool" where
  "isWrite (KvPutSnapshot s) = True"
| "isWrite (KvPutStamp key v) = True"
| "isWrite e = False"

text \<open>The accesses to the throttle's state: reads of \<^verbatim>\<open>last_monitor_trigger\<close> and
  \<^verbatim>\<open>last_update\<close>, writes of \<^verbatim>\<open>last_monitor_trigger\<close>.\<close>

fun isThrottleAccess :: "event \<Rightarrow> bool" where
  "isThrottleAccess (KvGet key) = (key = ''last_monitor_trigger'' \<or> key = ''last_update'')"
| "isThrottleAccess (KvPutStamp key v) = (key = ''last_monitor_trigger'')"
| "isThrottleAccess (KvPutFailed key) = (key = ''last_monitor_trigger'')"
| "isThrottleAccess e = False"

text \<open>The items used as concrete inputs below.\<close>

definition paidItem :: model where
  "paidItem = \<lparr>model_id = Some ''acme/chat'', model_name = Some ''Chat'',
      pricing = Some \<lparr>prompt = JStr ''0.000001'', completion = JStr ''0''\<rparr>,
      context_length = Some 8192\<rparr>"

definition itemA :: model where
  "itemA = \<lparr>model_id = Some ''A:free'', model_name = Some ''A'', pricing = None,
      context_length = None\<rparr>"

definition itemB :: model where
  "itemB = \<lparr>model_id = Some ''B:free'', model_name = Some ''B'', pricing = None,
      context_length = Some 4096\<rparr>"

definition itemB2 :: model where
  "itemB2 = \<lparr>model_id = Some ''B:free'', model_name = Some ''B (new name)'', pricing = None,
      context_length = Some 8192\<rparr>"

definition itemC :: model where
  "itemC = \<lparr>model_id = Some ''C:free'', model_name = None,
      pricing = Some \<lparr>prompt = JStr ''0'', completion = JNum 0\<rparr>, context_length = None\<rparr>"

definition kvEmpty :: kvstore where
  "kvEmpty = \<lparr>models_data = None, last_update = None, last_monitor_trigger = None,
      app_settings = None\<rparr>"

definition worldEmpty :: world where
  "worldEmpty = \<lparr>kv = kvEmpty, trace = []\<rparr>"

definition outOk :: outside where
  "outOk = \<lparr>catalog = HttpReply 200 ''OK'' (BodyJson (Some [itemB2, itemC, paidItem])),
      bark = (\<lambda>category. BarkReply 200 ''OK''),
      kv_get_error = (\<lambda>key. None), kv_put_error = (\<lambda>key. None),
      trigger_time = 1700000000000, snapshot_time = 1700000000250,
      reply_time = 1700000000300\<rparr>"

definition envBark :: bindings where
  "envBark = \<lparr>BARK_API_URL = Some ''https://api.day.app/KEY/'', OPENROUTER_API_KEY = None,
      MONITOR_INTERVAL_MINUTES = None\<rparr>"

definition out429 :: outside where
  "out429 = outOk\<lparr>catalog := HttpReply 429 ''Too Many Requests'' (BodyJson None)\<rparr>"

definition previousSnapshot :: snapshot where
  "previousSnapshot = \<lparr>timestamp = DateText 1699999700000, totalModels = 2,
      freeModels = [itemA, itemB], allModels = [itemA, itemB]\<rparr>"

definition worldStored :: world where
  "worldStored = \<lparr>kv = kvEmpty\<lparr>models_data := Some (Json (SnapshotDoc previousSnapshot)),
                               last_update := Some (DateText 1699999700000)\<rparr>,
                  trace = []\<rparr>"

definition outBarkDown :: outside where
  "outBarkDown = outOk\<lparr>bark := (\<lambda>category. if category = ''update''
                                     then BarkReply 500 ''Internal Server Error''
                                     else BarkReply 200 ''OK'')\<rparr>"

definition outLater :: outside where
  "outLater = outOk\<lparr>trigger_time := 1700000060000\<rparr>"

definition worldRecent :: world where
  "worldRecent = \<lparr>kv = kvEmpty\<lparr>last_update := Some (DateText 1699999999500),
                               last_monitor_trigger := Some (DateText 1699999999000)\<rparr>,
                  trace = []\<rparr>"

definition outReadFails :: outside where
  "outReadFails = outOk\<lparr>kv_get_error := (\<lambda>key. if key = ''models_data''
                                               then Some ''KV GET failed'' else None)\<rparr>"

section \<open>The classifier\<close>

lemmas parse_defs = parseFloatString_def unsignedLiteral_def isWhite_def isDigit_def
  digitsValue_def exponentPart_def scale10_def

lemma endsWith_suffix: "endsWith s p \<longleftrightarrow> suffix p s"
proof
  assume "endsWith s p"
  then have "s = take (length s - length p) s @ p"
    by (metis append_take_drop_id endsWith_def)
  then show "suffix p s" by (metis suffixI)
next
  assume "suffix p s"
  then obtain q where "s = q @ p" by (auto simp: suffix_def)
  then show "endsWith s p" by (simp add: endsWith_def)
qed

lemma id_test: "(case model_id m of None \<Rightarrow> False | Some i \<Rightarrow> i \<noteq> [] \<and> endsWith i '':free'') = hasFreeSuffix m"
  by (auto simp: hasFreeSuffix_def endsWith_suffix split: option.splits)

lemma priceOf_zero_text: "priceOf (JStr ''0'') = Fin 0"
  by (simp add: priceOf_def js_or_def parse_defs)

lemma priceOf_falsy: "\<not> truthy f \<Longrightarrow> priceOf f = Fin 0"
  by (simp add: priceOf_def js_or_def parse_defs)

lemma priceOf_truthy: "truthy f \<Longrightarrow> priceOf f = parseFloat f"
  by (simp add: priceOf_def js_or_def)

lemma isFree_eq_rules: "isFree m = isFree_rules m"
  unfolding isFree_def isFree_rules_def id_test parsesToZero_def
  by (simp add: Let_def split: option.splits)

text \<open>
  Claim C1. The classifier is the three-rule predicate: an identifier ending in
  \<^verbatim>\<open>:free\<close> makes the item free whatever its pricing; otherwise the item is free
  exactly when a pricing record is present and both cost fields parse to \<open>0\<close>, as the
  string \<^verbatim>\<open>"0"\<close>, the number \<open>0\<close> and a missing field do; in particular an item
  without the suffix and with a prompt or completion cost that does not parse to \<open>0\<close>
  is not free.
\<close>

theorem isFree_three_rules:
  "isFree m = isFree_rules m
   \<and> parsesToZero (JStr ''0'') \<and> parsesToZero (JNum 0) \<and> parsesToZero JUndefined
   \<and> (\<forall>p. \<not> hasFreeSuffix m \<and> pricing m = Some p
          \<and> (\<not> parsesToZero (prompt p) \<or> \<not> parsesToZero (completion p)) \<longrightarrow> \<not> isFree m)"
proof -
  have ex: "parsesToZero (JStr ''0'') \<and> parsesToZero (JNum 0) \<and> parsesToZero JUndefined"
    by (simp add: parsesToZero_def priceOf_falsy priceOf_zero_text)
  have neg: "\<forall>p. \<not> hasFreeSuffix m \<and> pricing m = Some p
          \<and> (\<not> parsesToZero (prompt p) \<or> \<not> parsesToZero (completion p)) \<longrightarrow> \<not> isFree m"
    unfolding isFree_eq_rules isFree_rules_def by auto
  from isFree_eq_rules ex neg show ?thesis by blast
qed

theorem isFree_three_rules_witness:
  "\<not> hasFreeSuffix paidItem
   \<and> pricing paidItem = Some \<lparr>prompt = JStr ''0.000001'', completion = JStr ''0''\<rparr>
   \<and> \<not> parsesToZero (JStr ''0.000001'')
   \<and> \<not> isFree paidItem \<and> \<not> isFree_rules paidItem"
proof -
  have a: "\<not> hasFreeSuffix paidItem"
    by (simp add: hasFreeSuffix_def paidItem_def suffix_def)
  have b: "pricing paidItem = Some \<lparr>prompt = JStr ''0.000001'', completion = JStr ''0''\<rparr>"
    by (simp add: paidItem_def)
  have c: "\<not> parsesToZero (JStr ''0.000001'')"
    by (simp add: parsesToZero_def priceOf_def js_or_def parse_defs)
  from isFree_three_rules [of paidItem] a b c show ?thesis by auto
qed

text \<open>
  Claim C2, as stated, fails: a cost field that holds a text without a number parses to
  \<^verbatim>\<open>NaN\<close>, not to \<open>0\<close>, so the item is classified differently from the same item
  with the field absent.
\<close>

theorem malformed_price_counterexample:
  "priceOf (JStr ''n/a'') = NaN \<and> priceOf JUndefined = Fin 0
   \<and> \<not> isFree \<lparr>model_id = Some ''acme/chat'', model_name = None,
        pricing = Some \<lparr>prompt = JStr ''n/a'', completion = JStr ''0''\<rparr>, context_length = None\<rparr>
   \<and> isFree \<lparr>model_id = Some ''acme/chat'', model_name = None,
        pricing = Some \<lparr>prompt = JUndefined, completion = JStr ''0''\<rparr>, context_length = None\<rparr>"
  by (simp add: isFree_def priceOf_def js_or_def parse_defs endsWith_def)

text \<open>
  Claim C2, amended. A cost field that is falsy (absent, \<^verbatim>\<open>null\<close>, \<^verbatim>\<open>false\<close>, the
  empty string, the number \<open>0\<close>) is read as \<open>0\<close>. Any other field without a leading
  number parses to \<^verbatim>\<open>NaN\<close>, which is not \<open>0\<close>: the pricing rule does not apply and
  the item is free exactly when its identifier ends in \<^verbatim>\<open>:free\<close>. The classifier is a
  total function: none of its steps throws on an item of this type.
\<close>

theorem malformed_price_not_zero:
  "(\<not> truthy f \<longrightarrow> priceOf f = Fin 0)
   \<and> (truthy f \<and> parseFloat f = NaN \<longrightarrow> priceOf f = NaN)
   \<and> (\<forall>p. pricing m = Some p
          \<and> ((truthy (prompt p) \<and> parseFloat (prompt p) = NaN)
             \<or> (truthy (completion p) \<and> parseFloat (completion p) = NaN))
        \<longrightarrow> isFree m = hasFreeSuffix m)"
proof -
  have "isFree m = hasFreeSuffix m"
    if "pricing m = Some p"
      and "(truthy (prompt p) \<and> parseFloat (prompt p) = NaN)
             \<or> (truthy (completion p) \<and> parseFloat (completion p) = NaN)" for p
    using that unfolding isFree_eq_rules isFree_rules_def parsesToZero_def
    by (auto simp: priceOf_truthy)
  then show ?thesis by (auto simp: priceOf_falsy priceOf_truthy)
qed

theorem malformed_price_not_zero_witness:
  "truthy (JStr ''n/a'') \<and> parseFloat (JStr ''n/a'') = NaN \<and> priceOf (JStr ''n/a'') = NaN
   \<and> \<not> truthy (JStr '''') \<and> priceOf (JStr '''') = Fin 0
   \<and> isFree \<lparr>model_id = Some ''acme/chat:free'', model_name = None,
        pricing = Some \<lparr>prompt = JStr ''n/a'', completion = JStr ''0''\<rparr>, context_length = None\<rparr>"
proof -
  have a: "truthy (JStr ''n/a'') \<and> parseFloat (JStr ''n/a'') = NaN"
    by (simp add: parse_defs)
  have b: "hasFreeSuffix \<lparr>model_id = Some ''acme/chat:free'', model_name = None,
        pricing = Some \<lparr>prompt = JStr ''n/a'', completion = JStr ''0''\<rparr>, context_length = None\<rparr>"
    by (simp add: hasFreeSuffix_def suffix_def)
  from a b malformed_price_not_zero [of "JStr ''n/a''" "\<lparr>model_id = Some ''acme/chat:free'', model_name = None,
        pricing = Some \<lparr>prompt = JStr ''n/a'', completion = JStr ''0''\<rparr>, context_length = None\<rparr>"]
    malformed_price_not_zero [of "JStr ''''"]
  show ?thesis by simp
qed

section \<open>The change detector\<close>

text \<open>
  Claim C3. \<open>added\<close> holds the current items whose identifier no previous item has,
  \<open>removed\<close> the previous items whose identifier no current item has, each in the
  order of its source sequence; so \<open>added\<close> shares no item with the previous sequence
  and lies within the current one, comparing a sequence with itself gives two empty
  lists, and an item whose identifier occurs on both sides is in neither list.
\<close>

theorem change_sets:
  "addedModels A B = filter (\<lambda>m. \<forall>a \<in> set A. model_id a \<noteq> model_id m) B
   \<and> removedModels A B = filter (\<lambda>m. \<forall>b \<in> set B. model_id b \<noteq> model_id m) A
   \<and> subseq (addedModels A B) B \<and> subseq (removedModels A B) A
   \<and> set (addedModels A B) \<inter> set A = {} \<and> set (addedModels A B) \<subseteq> set B
   \<and> addedModels A A = [] \<and> removedModels A A = []
   \<and> (\<forall>m. model_id m \<in> idSet A \<and> model_id m \<in> idSet B
          \<longrightarrow> m \<notin> set (addedModels A B) \<and> m \<notin> set (removedModels A B))"
proof -
  have p: "(model_id m \<notin> idSet X) = (\<forall>a \<in> set X. model_id a \<noteq> model_id m)" for m X
    unfolding idSet_def set_map image_iff by metis
  have 1: "addedModels A B = filter (\<lambda>m. \<forall>a \<in> set A. model_id a \<noteq> model_id m) B"
    by (simp add: addedModels_def p)
  have 2: "removedModels A B = filter (\<lambda>m. \<forall>b \<in> set B. model_id b \<noteq> model_id m) A"
    by (simp add: removedModels_def p)
  have 3: "subseq (addedModels A B) B \<and> subseq (removedModels A B) A"
    by (simp add: addedModels_def removedModels_def)
  have 4: "set (addedModels A B) \<inter> set A = {} \<and> set (addedModels A B) \<subseteq> set B"
    by (auto simp: 1)
  have 5: "addedModels A A = [] \<and> removedModels A A = []"
    by (auto simp: addedModels_def removedModels_def idSet_def filter_empty_conv)
  have 6: "\<forall>m. model_id m \<in> idSet A \<and> model_id m \<in> idSet B
          \<longrightarrow> m \<notin> set (addedModels A B) \<and> m \<notin> set (removedModels A B)"
    by (auto simp: addedModels_def removedModels_def)
  from 1 2 3 4 5 6 show ?thesis by blast
qed


theorem change_sets_witness:
  "addedModels [itemA, itemB] [itemB2, itemC] = [itemC]
   \<and> removedModels [itemA, itemB] [itemB2, itemC] = [itemA]
   \<and> model_id itemB2 \<in> idSet [itemA, itemB] \<and> model_id itemB2 \<in> idSet [itemB2, itemC]
   \<and> itemB2 \<notin> set (addedModels [itemA, itemB] [itemB2, itemC])
   \<and> itemB2 \<notin> set (removedModels [itemA, itemB] [itemB2, itemC])"
proof -
  have ids: "model_id itemB2 \<in> idSet [itemA, itemB] \<and> model_id itemB2 \<in> idSet [itemB2, itemC]"
    by (simp add: idSet_def itemA_def itemB_def itemB2_def itemC_def)
  have a: "filter (\<lambda>m. \<forall>a \<in> set [itemA, itemB]. model_id a \<noteq> model_id m) [itemB2, itemC] = [itemC]"
    by (simp add: itemA_def itemB_def itemB2_def itemC_def)
  have r: "filter (\<lambda>m. \<forall>b \<in> set [itemB2, itemC]. model_id b \<noteq> model_id m) [itemA, itemB] = [itemA]"
    by (simp add: itemA_def itemB_def itemB2_def itemC_def)
  from change_sets [of "[itemA, itemB]" "[itemB2, itemC]"] ids a r show ?thesis
    by metis
qed
section \<open>The throttle\<close>


lemma lastRun_None: "lastRun None None = None"
  by (simp add: lastRun_def lastRunStep_def)

lemma stampValue_simps:
  "stampValue None = None" "stampValue (Some (DateText t)) = Some t"
  "stampValue (Some (PlainText s)) = None"
  by (simp_all add: stampValue_def)

lemma lastRunStep_value:
  "lastRunStep acc v =
     (case stampValue v of
        None \<Rightarrow> acc
      | Some parsed \<Rightarrow>
          (case acc of None \<Rightarrow> Some parsed
           | Some t \<Rightarrow> if t = 0 \<or> parsed > t then Some parsed else Some t))"
proof (cases v)
  case None
  then show ?thesis by (simp add: lastRunStep_def stampValue_def)
next
  case (Some tx)
  then show ?thesis by (cases tx) (simp_all add: lastRunStep_def stampValue_def)
qed

lemma lastRun_value:
  "lastRun tr up =
     (case stampValue tr of
        None \<Rightarrow> stampValue up
      | Some t \<Rightarrow>
          (case stampValue up of
             None \<Rightarrow> Some t
           | Some u \<Rightarrow> if t = 0 \<or> u > t then Some u else Some t))"
  by (simp add: lastRun_def lastRunStep_value split: option.splits)


lemma shouldRun_unfold:
  "shouldRun now tr up i =
     (case lastRun tr up of
        None \<Rightarrow> True
      | Some t \<Rightarrow> t = 0 \<or> now - t \<ge> clampInterval i * 60000)"
  by (auto simp: shouldRun_def Let_def split: option.splits)


lemma shouldRun_after_trigger:
  assumes "0 < t" "now - t < clampInterval i * 60000"
  shows "\<not> shouldRun now (Some (toISOString t)) up i"
  using assms
  by (auto simp: shouldRun_unfold lastRun_value stampValue_simps toISOString_def split: option.splits)

lemma shouldRun_after_update:
  assumes "t \<noteq> 0" "now - t < clampInterval i * 60000"
  shows "\<not> shouldRun now tr (Some (toISOString t)) i"
  using assms
  by (auto simp: shouldRun_unfold lastRun_value stampValue_simps toISOString_def split: option.splits)



section \<open>Reasoning about the effects of a run\<close>

lemma steps_refl: "steps P f Q w w"
  by (simp add: steps_def)

lemma steps_trans: "steps P f Q a b \<Longrightarrow> steps P f Q b c \<Longrightarrow> steps P f Q a c"
  unfolding steps_def by (elim conjE exE) (auto simp: list_all_append)

lemma keeps_ret: "keeps P f Q (ret x)"
  by (simp add: keeps_def ret_def steps_refl)

lemma keeps_throw: "keeps P f Q (throw e)"
  by (simp add: keeps_def throw_def steps_refl)

lemma keeps_bnd: "keeps P f Q m \<Longrightarrow> (\<And>x. keeps P f Q (g x)) \<Longrightarrow> keeps P f Q (bnd m g)"
  unfolding keeps_def bnd_def
proof (intro allI)
  fix w
  assume m: "\<forall>w. steps P f Q w (snd (m w))" and g: "\<And>x. \<forall>w. steps P f Q w (snd (g x w))"
  obtain r w1 where mw: "m w = (r, w1)" by (cases "m w")
  from m mw have s1: "steps P f Q w w1" by (metis snd_conv)
  show "steps P f Q w (snd (case m w of (Inl e, w') \<Rightarrow> (Inl e, w') | (Inr x, w') \<Rightarrow> g x w'))"
  proof (cases r)
    case (Inl e)
    with mw s1 show ?thesis by simp
  next
    case (Inr x)
    from g have "steps P f Q w1 (snd (g x w1))" by blast
    with s1 have "steps P f Q w (snd (g x w1))" by (rule steps_trans)
    with mw Inr show ?thesis by simp
  qed
qed

lemma keeps_seq: "keeps P f Q m \<Longrightarrow> keeps P f Q n \<Longrightarrow> keeps P f Q (seq m n)"
  by (simp add: seq_def keeps_bnd)

lemma keeps_catch: "keeps P f Q m \<Longrightarrow> (\<And>e. keeps P f Q (h e)) \<Longrightarrow> keeps P f Q (catch m h)"
  unfolding keeps_def catch_def
proof (intro allI)
  fix w
  assume m: "\<forall>w. steps P f Q w (snd (m w))" and h: "\<And>e. \<forall>w. steps P f Q w (snd (h e w))"
  obtain r w1 where mw: "m w = (r, w1)" by (cases "m w")
  from m mw have s1: "steps P f Q w w1" by (metis snd_conv)
  show "steps P f Q w (snd (case m w of (Inl e, w') \<Rightarrow> h e w' | (Inr x, w') \<Rightarrow> (Inr x, w')))"
  proof (cases r)
    case (Inr x)
    with mw s1 show ?thesis by simp
  next
    case (Inl e)
    from h have "steps P f Q w1 (snd (h e w1))" by blast
    with s1 have "steps P f Q w (snd (h e w1))" by (rule steps_trans)
    with mw Inl show ?thesis by simp
  qed
qed

lemma keeps_emit: "P ev \<Longrightarrow> keeps P f Q (emit ev)"
  by (simp add: keeps_def emit_def steps_def)

lemma keeps_kvGet: "P (KvGet key) \<Longrightarrow> keeps P f Q (kvGet out key field)"
  unfolding kvGet_def
  by (intro keeps_seq keeps_emit) (auto simp: keeps_def throw_def steps_refl split: option.splits)

lemma keeps_kvGetBoth:
  "P (KvGet key1) \<Longrightarrow> P (KvGet key2) \<Longrightarrow> keeps P f Q (kvGetBoth out key1 field1 key2 field2)"
  unfolding kvGetBoth_def
  by (intro keeps_seq keeps_emit) (auto simp: keeps_def throw_def steps_refl split: option.splits)

lemma keeps_kvPut:
  "P ev \<Longrightarrow> P (KvPutFailed key) \<Longrightarrow> (\<And>k. f (upd k) = f k \<or> Q (f (upd k)))
   \<Longrightarrow> keeps P f Q (kvPut out key ev upd)"
  unfolding kvPut_def
  by (auto simp: keeps_def steps_def seq_def bnd_def emit_def throw_def split: option.splits)

lemmas keeps_intros = keeps_ret keeps_throw keeps_bnd keeps_seq keeps_catch keeps_emit
  keeps_kvGet keeps_kvGetBoth keeps_kvPut

lemma keeps_fetch: "P CatalogGet \<Longrightarrow> keeps P f Q (fetchOpenRouterModels out)"
  unfolding fetchOpenRouterModels_def
  by (auto intro!: keeps_intros split: catalog_reply.splits catalog_body.splits option.splits)

lemma keeps_getPrevious:
  "P (KvGet ''models_data'') \<Longrightarrow> P (ConsoleError ''Error retrieving previous models data:'')
   \<Longrightarrow> keeps P f Q (getPreviousModelsData out)"
  unfolding getPreviousModelsData_def
  by (auto intro!: keeps_intros split: option.splits json_text.splits)

lemma keeps_store:
  "P (KvPutSnapshot data) \<Longrightarrow> P (KvPutStamp ''last_update'' (timestamp data))
   \<Longrightarrow> P (KvPutFailed ''models_data'') \<Longrightarrow> P (KvPutFailed ''last_update'')
   \<Longrightarrow> P (ConsoleError ''Error storing models data:'')
   \<Longrightarrow> (\<And>k. f (k\<lparr>models_data := Some (Json (SnapshotDoc data))\<rparr>) = f k
            \<or> Q (f (k\<lparr>models_data := Some (Json (SnapshotDoc data))\<rparr>)))
   \<Longrightarrow> (\<And>k. f (k\<lparr>last_update := Some (timestamp data)\<rparr>) = f k
            \<or> Q (f (k\<lparr>last_update := Some (timestamp data)\<rparr>)))
   \<Longrightarrow> keeps P f Q (storeModelsData out data)"
  unfolding storeModelsData_def
  by (intro keeps_intros) simp_all

lemma keeps_getBarkUrl:
  "P (KvGet ''app_settings'') \<Longrightarrow> P (ConsoleError ''Error getting Bark URL from settings:'')
   \<Longrightarrow> keeps P f Q (getBarkUrlFromSettings out)"
  unfolding getBarkUrlFromSettings_def
  by (auto intro!: keeps_intros split: option.splits json_text.splits)

lemma keeps_sendBark:
  "(\<And>u. P (BarkGet u category body)) \<Longrightarrow> P (ConsoleError ''Bark notification failed:'')
   \<Longrightarrow> P (ConsoleError ''Error sending Bark notification:'')
   \<Longrightarrow> keeps P f Q (sendBarkNotification rv out barkUrl body category)"
  unfolding sendBarkNotification_def
  by (auto intro!: keeps_intros split: option.splits bark_reply.splits revision.splits)

lemma runMonitoring_blocks:
  "runMonitoring rv env out =
     catch
       (bnd (fetchOpenRouterModels out)
          (\<lambda>currentModels.
             if currentModels = [] then throw NoModels
             else bnd (getPreviousModelsData out) (afterLoad rv env out currentModels)))
       (monitoringError rv env out)"
  unfolding runMonitoring_def afterLoad_def monitoringError_def newSnapshot_def Let_def
  by (rule refl)

lemma fetch_exact:
  "fetchOpenRouterModels out w = (fetchOutcome out, logged w [CatalogGet])"
  unfolding fetchOpenRouterModels_def fetchOutcome_def logged_def
  by (simp add: seq_def bnd_def emit_def throw_def ret_def
      split: catalog_reply.splits catalog_body.splits option.splits)

lemma load_exact:
  "getPreviousModelsData out w = (Inr (loadOutcome out (kv w)), logged w (loadEvents out (kv w)))"
  unfolding getPreviousModelsData_def loadOutcome_def loadEvents_def logged_def kvGet_def
  by (simp add: catch_def seq_def bnd_def emit_def throw_def ret_def
      split: option.splits json_text.splits)

lemma logged_simps [simp]:
  "kv (logged w evs) = kv w" "trace (logged w evs) = trace w @ evs"
  "logged (logged w a) b = logged w (a @ b)"
  by (simp_all add: logged_def)

lemma runMonitoring_cases:
  "runMonitoring rv env out w =
     (case fetchOutcome out of
        Inl e \<Rightarrow> monitoringError rv env out e (logged w [CatalogGet])
      | Inr ms \<Rightarrow>
          if ms = [] then monitoringError rv env out NoModels (logged w [CatalogGet])
          else catch (afterLoad rv env out ms (loadOutcome out (kv w))) (monitoringError rv env out)
                 (logged w (CatalogGet # loadEvents out (kv w))))"
  unfolding runMonitoring_blocks
  by (simp add: catch_def bnd_def fetch_exact load_exact throw_def split: sum.splits)

lemma bark_exact:
  "sendBarkNotification rv out barkUrl body category w =
     (barkOutcome rv out barkUrl category, logged w (barkEvents rv out barkUrl body category))"
proof (cases "configured barkUrl")
  case False
  then show ?thesis
    by (cases barkUrl) (simp_all add: sendBarkNotification_def barkOutcome_def barkEvents_def ret_def logged_def)
next
  case True
  then obtain u where u: "barkUrl = Some u" "u \<noteq> []" by (cases barkUrl) auto
  show ?thesis
    unfolding sendBarkNotification_def barkOutcome_def barkEvents_def logged_def
    by (cases rv; cases "bark out category")
       (simp_all add: u catch_def seq_def bnd_def emit_def throw_def ret_def)
qed

lemma store_ok:
  "kv_put_error out ''models_data'' = None \<Longrightarrow> kv_put_error out ''last_update'' = None \<Longrightarrow>
   storeModelsData out data w =
     (Inr (), w\<lparr>kv := (kv w)\<lparr>models_data := Some (Json (SnapshotDoc data)),
                             last_update := Some (timestamp data)\<rparr>,
                trace := trace w @ [KvPutSnapshot data, KvPutStamp ''last_update'' (timestamp data)]\<rparr>)"
  unfolding storeModelsData_def kvPut_def
  by (simp add: catch_def seq_def bnd_def)

lemma monitoringError_exact:
  "monitoringError rv env out e w =
     (case barkOutcome rv out (BARK_API_URL env) ''error'' of
        Inl e' \<Rightarrow> Inl e'
      | Inr u \<Rightarrow> Inr (MonitorFailed (message e) (toISOString (reply_time out))),
      logged w (ConsoleError ''Monitoring error:'' #
                barkEvents rv out (BARK_API_URL env)
                  (ErrorNotice (''Monitoring failed: '' @ message e)) ''error''))"
proof (cases "configured (BARK_API_URL env)")
  case True
  then show ?thesis
    unfolding monitoringError_def
    by (simp add: seq_def bnd_def emit_def ret_def bark_exact logged_def split: sum.splits)
next
  case False
  then show ?thesis
    unfolding monitoringError_def
    by (simp add: seq_def bnd_def emit_def ret_def logged_def barkOutcome_def barkEvents_def)
qed

lemma keeps_sendChange:
  "(\<And>u b. P (BarkGet u ''update'' b)) \<Longrightarrow> (\<And>s. P (ConsoleError s)) \<Longrightarrow> P (KvGet ''app_settings'')
   \<Longrightarrow> keeps P f Q (sendChangeNotification rv env out added removed)"
  unfolding sendChangeNotification_def
  by (auto intro!: keeps_intros keeps_getBarkUrl keeps_sendBark split: revision.splits)

lemma keeps_detect:
  "(\<And>u b. P (BarkGet u ''update'' b)) \<Longrightarrow> (\<And>s. P (ConsoleError s)) \<Longrightarrow> P (KvGet ''app_settings'')
   \<Longrightarrow> keeps P f Q (detectAndNotifyChanges rv env out prev cur)"
  unfolding detectAndNotifyChanges_def Let_def
  by (auto intro!: keeps_intros keeps_sendChange)

lemma keeps_monitoringError:
  "(\<And>u b. P (BarkGet u ''error'' b)) \<Longrightarrow> (\<And>s. P (ConsoleError s))
   \<Longrightarrow> keeps P f Q (monitoringError rv env out e)"
  unfolding monitoringError_def
  by (auto intro!: keeps_intros keeps_sendBark)

lemma timestamp_newSnapshot: "timestamp (newSnapshot out ms) = toISOString (snapshot_time out)"
  by (simp add: newSnapshot_def)

lemma keeps_store_new:
  assumes se: "\<And>e. storeEvent (newSnapshot out ms) e \<Longrightarrow> P e" and ce: "\<And>s. P (ConsoleError s)"
    and md: "\<And>k. f (k\<lparr>models_data := Some (Json (SnapshotDoc (newSnapshot out ms)))\<rparr>) = f k
            \<or> Q (f (k\<lparr>models_data := Some (Json (SnapshotDoc (newSnapshot out ms)))\<rparr>))"
    and lu: "\<And>k. f (k\<lparr>last_update := Some (toISOString (snapshot_time out))\<rparr>) = f k
            \<or> Q (f (k\<lparr>last_update := Some (toISOString (snapshot_time out))\<rparr>))"
  shows "keeps P f Q (storeModelsData out (newSnapshot out ms))"
proof (rule keeps_store)
  show "P (KvPutSnapshot (newSnapshot out ms))" by (rule se) (simp add: storeEvent_def)
  show "P (KvPutStamp ''last_update'' (timestamp (newSnapshot out ms)))"
    by (rule se) (simp add: storeEvent_def)
  show "P (KvPutFailed ''models_data'')" by (rule se) (simp add: storeEvent_def)
  show "P (KvPutFailed ''last_update'')" by (rule se) (simp add: storeEvent_def)
  show "P (ConsoleError ''Error storing models data:'')" by (rule ce)
  show "f (k\<lparr>models_data := Some (Json (SnapshotDoc (newSnapshot out ms)))\<rparr>) = f k
            \<or> Q (f (k\<lparr>models_data := Some (Json (SnapshotDoc (newSnapshot out ms)))\<rparr>))" for k
    by (rule md)
  show "f (k\<lparr>last_update := Some (timestamp (newSnapshot out ms))\<rparr>) = f k
            \<or> Q (f (k\<lparr>last_update := Some (timestamp (newSnapshot out ms))\<rparr>))" for k
    unfolding timestamp_newSnapshot by (rule lu)
qed

lemma keeps_afterLoad_cold:
  assumes "\<And>e. storeEvent (newSnapshot out ms) e \<Longrightarrow> P e" and "\<And>s. P (ConsoleError s)"
    and "\<And>k. f (k\<lparr>models_data := Some (Json (SnapshotDoc (newSnapshot out ms)))\<rparr>) = f k
            \<or> Q (f (k\<lparr>models_data := Some (Json (SnapshotDoc (newSnapshot out ms)))\<rparr>))"
    and "\<And>k. f (k\<lparr>last_update := Some (toISOString (snapshot_time out))\<rparr>) = f k
            \<or> Q (f (k\<lparr>last_update := Some (toISOString (snapshot_time out))\<rparr>))"
  shows "keeps P f Q (afterLoad rv env out ms None)"
  unfolding afterLoad_def
  by (intro keeps_seq keeps_store_new assms) (simp_all add: keeps_ret)

lemma keeps_afterLoad:
  assumes "\<And>e. storeEvent (newSnapshot out ms) e \<Longrightarrow> P e" and ce: "\<And>s. P (ConsoleError s)"
    and be: "\<And>u b. P (BarkGet u ''update'' b)" and ge: "P (KvGet ''app_settings'')"
    and "\<And>k. f (k\<lparr>models_data := Some (Json (SnapshotDoc (newSnapshot out ms)))\<rparr>) = f k
            \<or> Q (f (k\<lparr>models_data := Some (Json (SnapshotDoc (newSnapshot out ms)))\<rparr>))"
    and "\<And>k. f (k\<lparr>last_update := Some (toISOString (snapshot_time out))\<rparr>) = f k
            \<or> Q (f (k\<lparr>last_update := Some (toISOString (snapshot_time out))\<rparr>))"
  shows "keeps P f Q (afterLoad rv env out ms previousData)"
proof -
  have d: "keeps P f Q (case previousData of
               Some (SnapshotDoc prev) \<Rightarrow>
                 detectAndNotifyChanges rv env out (freeModels prev) (identifyFreeModels ms)
             | Some PartialDoc \<Rightarrow> ret ()
             | None \<Rightarrow> ret ())"
    by (simp add: keeps_ret keeps_detect ce be ge split: option.splits models_doc.splits)
  show ?thesis
    unfolding afterLoad_def
    by (intro keeps_seq keeps_store_new assms d keeps_ret)
qed

lemma keeps_runMonitoring:
  assumes ev: "\<And>e. monitorEvent out e \<Longrightarrow> P e"
    and md: "\<And>k ms. f (k\<lparr>models_data := Some (Json (SnapshotDoc (newSnapshot out ms)))\<rparr>) = f k
            \<or> Q (f (k\<lparr>models_data := Some (Json (SnapshotDoc (newSnapshot out ms)))\<rparr>))"
    and lu: "\<And>k. f (k\<lparr>last_update := Some (toISOString (snapshot_time out))\<rparr>) = f k
            \<or> Q (f (k\<lparr>last_update := Some (toISOString (snapshot_time out))\<rparr>))"
  shows "keeps P f Q (runMonitoring rv env out)"
proof -
  have se: "P e" if "storeEvent (newSnapshot out ms) e" for e ms
    using that by (auto simp: storeEvent_def monitorEvent_def newSnapshot_def intro!: ev)
  have ce: "P (ConsoleError s)" for s by (rule ev) (simp add: monitorEvent_def)
  have be: "P (BarkGet u ''update'' b)" "P (BarkGet u ''error'' b)" for u b
    by (rule ev, simp add: monitorEvent_def)+
  have ge: "P (KvGet ''app_settings'')" "P (KvGet ''models_data'')" "P CatalogGet"
    by (rule ev, simp add: monitorEvent_def)+
  have al: "keeps P f Q (afterLoad rv env out ms p)" for ms p
    by (rule keeps_afterLoad) (rule se ce be ge md lu | assumption)+
  have body: "keeps P f Q (if ms = [] then throw NoModels
             else bnd (getPreviousModelsData out) (afterLoad rv env out ms))" for ms
    by (simp add: keeps_throw keeps_bnd keeps_getPrevious al ge ce)
  show ?thesis
    unfolding runMonitoring_blocks
    by (intro keeps_catch keeps_bnd keeps_fetch keeps_monitoringError body be ce ge)
qed

lemma keepsD:
  assumes "keeps P f Q m" and "m w = (r, w')"
  shows "trace w' = trace w @ newEvents w w'" and "list_all P (newEvents w w')"
    and "f (kv w') = f (kv w) \<or> Q (f (kv w'))"
proof -
  from assms have "steps P f Q w w'" unfolding keeps_def by (metis snd_conv)
  then obtain evs where e: "trace w' = trace w @ evs" "list_all P evs"
    and k: "f (kv w') = f (kv w) \<or> Q (f (kv w'))"
    unfolding steps_def by blast
  from e have n: "newEvents w w' = evs" by (simp add: newEvents_def)
  from e n show "trace w' = trace w @ newEvents w w'" by simp
  from e n show "list_all P (newEvents w w')" by simp
  from k show "f (kv w') = f (kv w) \<or> Q (f (kv w'))" .
qed

lemma steps_logged: "list_all P evs \<Longrightarrow> steps P f Q w (logged w evs)"
  by (simp add: steps_def)

lemma loadOutcome_None: "loadOutcome out k = None \<longleftrightarrow> noPreviousSnapshot out k"
  by (auto simp: loadOutcome_def noPreviousSnapshot_def split: option.splits json_text.splits)

lemma loadEvents_quiet: "list_all (\<lambda>e. \<not> isNotification e) (loadEvents out k)"
  by (simp add: loadEvents_def split: option.splits json_text.splits)

lemma not_change_if_not_notification: "\<not> isNotification e \<Longrightarrow> \<not> isChangeNotification e"
  by (cases e) simp_all

lemma success_path:
  assumes f: "fetchOutcome out = Inr ms" and ne: "ms \<noteq> []"
    and p: "kv_put_error out ''models_data'' = None" "kv_put_error out ''last_update'' = None"
  shows "runMonitoring rv env out w =
     catch
       (seq (case loadOutcome out (kv w) of
               Some (SnapshotDoc prev) \<Rightarrow>
                 detectAndNotifyChanges rv env out (freeModels prev) (identifyFreeModels ms)
             | Some PartialDoc \<Rightarrow> ret ()
             | None \<Rightarrow> ret ())
          (ret (MonitorOk (length ms) (length (identifyFreeModels ms)) (toISOString (reply_time out)))))
       (monitoringError rv env out)
       (w\<lparr>kv := (kv w)\<lparr>models_data := Some (Json (SnapshotDoc (newSnapshot out ms))),
                        last_update := Some (toISOString (snapshot_time out))\<rparr>,
          trace := trace w @ CatalogGet # loadEvents out (kv w) @
                     [KvPutSnapshot (newSnapshot out ms),
                      KvPutStamp ''last_update'' (toISOString (snapshot_time out))]\<rparr>)"
  unfolding runMonitoring_cases f afterLoad_def
  using ne
  by (simp add: catch_def seq_def bnd_def store_ok [OF p] timestamp_newSnapshot logged_def)

lemma cold_success_path:
  assumes f: "fetchOutcome out = Inr ms" and ne: "ms \<noteq> []"
    and p: "kv_put_error out ''models_data'' = None" "kv_put_error out ''last_update'' = None"
    and c: "noPreviousSnapshot out (kv w)"
  shows "runMonitoring rv env out w =
     (Inr (MonitorOk (length ms) (length (identifyFreeModels ms)) (toISOString (reply_time out))),
      w\<lparr>kv := (kv w)\<lparr>models_data := Some (Json (SnapshotDoc (newSnapshot out ms))),
                        last_update := Some (toISOString (snapshot_time out))\<rparr>,
         trace := trace w @ CatalogGet # loadEvents out (kv w) @
                     [KvPutSnapshot (newSnapshot out ms),
                      KvPutStamp ''last_update'' (toISOString (snapshot_time out))]\<rparr>)"
proof -
  from c have l: "loadOutcome out (kv w) = None" by (simp add: loadOutcome_None)
  show ?thesis
    unfolding success_path [OF f ne p] l
    by (simp add: catch_def seq_def bnd_def ret_def)
qed

lemma cold_run_steps:
  assumes c: "noPreviousSnapshot out (kv w)"
  shows "steps (\<lambda>e. \<not> isChangeNotification e) (\<lambda>k. ()) (\<lambda>u. False) w
           (snd (runMonitoring rv env out w))"
proof -
  let ?P = "\<lambda>e. \<not> isChangeNotification e"
  let ?S = "steps ?P (\<lambda>k. ()) (\<lambda>u. False)"
  have me: "keeps ?P (\<lambda>k. ()) (\<lambda>u. False) (monitoringError rv env out e)" for e
    by (rule keeps_monitoringError) simp_all
  have s1: "?S w (logged w [CatalogGet])" by (rule steps_logged) simp
  from c have l: "loadOutcome out (kv w) = None" by (simp add: loadOutcome_None)
  show ?thesis
  proof (cases "fetchOutcome out")
    case (Inl e)
    from me have "?S (logged w [CatalogGet]) (snd (monitoringError rv env out e (logged w [CatalogGet])))"
      unfolding keeps_def by blast
    with s1 show ?thesis unfolding runMonitoring_cases Inl by (simp add: steps_trans)
  next
    case (Inr ms)
    show ?thesis
    proof (cases "ms = []")
      case True
      from me have "?S (logged w [CatalogGet]) (snd (monitoringError rv env out NoModels (logged w [CatalogGet])))"
        unfolding keeps_def by blast
      with s1 True show ?thesis unfolding runMonitoring_cases Inr by (simp add: steps_trans)
    next
      case False
      have "list_all ?P (CatalogGet # loadEvents out (kv w))"
        using loadEvents_quiet [of out "kv w"]
        by (simp add: list_all_iff not_change_if_not_notification)
      then have s2: "?S w (logged w (CatalogGet # loadEvents out (kv w)))" by (rule steps_logged)
      have "keeps ?P (\<lambda>k. ()) (\<lambda>u. False) (afterLoad rv env out ms None)"
        by (rule keeps_afterLoad_cold) (auto simp: storeEvent_def)
      then have "keeps ?P (\<lambda>k. ()) (\<lambda>u. False)
          (catch (afterLoad rv env out ms None) (monitoringError rv env out))"
        by (intro keeps_catch me)
      then have "?S (logged w (CatalogGet # loadEvents out (kv w)))
          (snd (catch (afterLoad rv env out ms None) (monitoringError rv env out)
                 (logged w (CatalogGet # loadEvents out (kv w)))))"
        unfolding keeps_def by blast
      with s2 False show ?thesis unfolding runMonitoring_cases Inr l by (simp add: steps_trans)
    qed
  qed
qed

lemma fetchOutcome_ok:
  "catalog out = HttpReply st txt (BodyJson (Some ms)) \<Longrightarrow> statusOk st \<Longrightarrow> fetchOutcome out = Inr ms"
  by (simp add: fetchOutcome_def)

lemma newSnapshot_invariant: "snapshotInvariant (newSnapshot out ms)"
  by (simp add: snapshotInvariant_def newSnapshot_def identifyFreeModels_def)

lemma run_keeps_snapshots:
  "keeps (monitorEvent out) models_data
     (\<lambda>v. \<exists>ms. v = Some (Json (SnapshotDoc (newSnapshot out ms)))) (runMonitoring rv env out)"
  by (rule keeps_runMonitoring) auto

text \<open>A first run on an empty store, with a catalog of three items.\<close>

lemma fetchOutcome_outOk: "fetchOutcome outOk = Inr [itemB2, itemC, paidItem]"
  by (simp add: fetchOutcome_def outOk_def statusOk_def)

lemma noPrevious_empty: "noPreviousSnapshot outOk (kv worldEmpty)"
  by (simp add: noPreviousSnapshot_def worldEmpty_def kvEmpty_def)

lemma puts_outOk: "kv_put_error outOk ''models_data'' = None" "kv_put_error outOk ''last_update'' = None"
  by (simp_all add: outOk_def)

lemma cold_run_outOk:
  "runMonitoring RevA envBark outOk worldEmpty =
     (Inr (MonitorOk 3 2 (DateText 1700000000300)),
      \<lparr>kv = kvEmpty\<lparr>models_data := Some (Json (SnapshotDoc (newSnapshot outOk [itemB2, itemC, paidItem]))),
                   last_update := Some (DateText 1700000000250)\<rparr>,
       trace = [CatalogGet, KvGet ''models_data'',
                KvPutSnapshot (newSnapshot outOk [itemB2, itemC, paidItem]),
                KvPutStamp ''last_update'' (DateText 1700000000250)]\<rparr>)"
proof -
  have f: "identifyFreeModels [itemB2, itemC, paidItem] = [itemB2, itemC]"
    by (simp add: identifyFreeModels_def isFree_def itemB2_def itemC_def paidItem_def endsWith_def
        priceOf_def js_or_def parse_defs)
  have l: "loadEvents outOk kvEmpty = [KvGet ''models_data'']"
    by (simp add: loadEvents_def outOk_def kvEmpty_def)
  have t: "toISOString (snapshot_time outOk) = DateText 1700000000250"
    "toISOString (reply_time outOk) = DateText 1700000000300"
    by (simp_all add: toISOString_def outOk_def)
  have ne: "[itemB2, itemC, paidItem] \<noteq> []" by simp
  show ?thesis
    unfolding cold_success_path [OF fetchOutcome_outOk ne puts_outOk noPrevious_empty] f t
    by (simp add: worldEmpty_def l)
qed

lemma fetchFailure_outcome: "fetchFailure out = Some e \<Longrightarrow> fetchOutcome out = Inl e"
  by (auto simp: fetchFailure_def fetchOutcome_def split: catalog_reply.splits if_splits)

lemma barkOutcome_RevA: "barkOutcome RevA out url category = Inr ()"
  by (simp add: barkOutcome_def)

lemma barkEvents_quiet: "list_all (\<lambda>e. \<not> isWrite e) (barkEvents rv out url body category)"
  by (simp add: barkEvents_def split: bark_reply.splits revision.splits)

lemma barkEvents_none: "\<not> configured url \<Longrightarrow> barkEvents rv out url body category = []"
  by (simp add: barkEvents_def)

lemma barkEvents_first:
  "configured url \<Longrightarrow>
   \<exists>evs. barkEvents rv out url body category = BarkGet (baseUrl rv (the url)) category body # evs
     \<and> list_all (\<lambda>e. \<not> isNotification e) evs"
  by (simp add: barkEvents_def split: bark_reply.splits revision.splits)

lemma fetch_failure_path:
  assumes "fetchFailure out = Some e"
  shows "runMonitoring rv env out w =
     (case barkOutcome rv out (BARK_API_URL env) ''error'' of
        Inl e' \<Rightarrow> Inl e'
      | Inr u \<Rightarrow> Inr (MonitorFailed (message e) (toISOString (reply_time out))),
      logged w (CatalogGet # ConsoleError ''Monitoring error:'' #
                barkEvents rv out (BARK_API_URL env)
                  (ErrorNotice (''Monitoring failed: '' @ message e)) ''error''))"
  unfolding runMonitoring_cases fetchFailure_outcome [OF assms]
  by (simp add: monitoringError_exact)

lemma getBarkUrl_exact:
  "getBarkUrlFromSettings out w =
     (Inr (settingsTarget out (kv w)), logged w (settingsTargetEvents out (kv w)))"
  unfolding getBarkUrlFromSettings_def settingsTarget_def settingsTargetEvents_def logged_def kvGet_def
  by (simp add: catch_def seq_def bnd_def emit_def throw_def ret_def
      split: option.splits json_text.splits)

lemma bark_unconfigured:
  "\<not> configured url \<Longrightarrow> barkOutcome rv out url category = Inr ()"
  by (simp add: barkOutcome_def)

lemma sendChange_exact:
  "sendChangeNotification rv env out added removed w =
     (barkOutcome rv out (changeTarget rv env out (kv w)) ''update'',
      logged w (targetEvents rv env out (kv w) @
                barkEvents rv out (changeTarget rv env out (kv w))
                  (ChangeNotice (map displayName added) (map displayName removed)) ''update''))"
proof (cases rv)
  case RevA
  then show ?thesis
    unfolding sendChangeNotification_def changeTarget_def targetEvents_def
    by (simp add: bnd_def ret_def bark_exact bark_unconfigured barkEvents_none)
next
  case RevB
  then show ?thesis
    unfolding sendChangeNotification_def changeTarget_def targetEvents_def
    by (simp add: bnd_def ret_def bark_exact getBarkUrl_exact bark_unconfigured barkEvents_none)
qed

lemma detect_exact:
  assumes "addedModels prev cur \<noteq> [] \<or> removedModels prev cur \<noteq> []"
  shows "detectAndNotifyChanges rv env out prev cur w =
     (barkOutcome rv out (changeTarget rv env out (kv w)) ''update'',
      logged w (targetEvents rv env out (kv w) @
                barkEvents rv out (changeTarget rv env out (kv w)) (changeNotice prev cur) ''update''))"
  using assms unfolding detectAndNotifyChanges_def Let_def changeNotice_def
  by (simp add: sendChange_exact)

lemma settingsTarget_stored:
  "settingsTarget out (k\<lparr>models_data := a, last_update := b\<rparr>) = settingsTarget out k"
  unfolding settingsTarget_def by (cases "kv_get_error out ''app_settings''") simp_all

lemma settingsTargetEvents_stored:
  "settingsTargetEvents out (k\<lparr>models_data := a, last_update := b\<rparr>) = settingsTargetEvents out k"
  unfolding settingsTargetEvents_def by (cases "kv_get_error out ''app_settings''") simp_all

lemma changeTarget_stored:
  "changeTarget rv env out (k\<lparr>models_data := a, last_update := b\<rparr>) = changeTarget rv env out k"
  unfolding changeTarget_def settingsTarget_stored by (rule refl)

lemma targetEvents_stored:
  "targetEvents rv env out (k\<lparr>models_data := a, last_update := b\<rparr>) = targetEvents rv env out k"
  unfolding targetEvents_def settingsTargetEvents_stored by (rule refl)

lemma warm_path:
  assumes f: "fetchOutcome out = Inr ms" and ne: "ms \<noteq> []"
    and p: "kv_put_error out ''models_data'' = None" "kv_put_error out ''last_update'' = None"
    and l: "loadOutcome out (kv w) = Some (SnapshotDoc prev)"
    and ch: "addedModels (freeModels prev) (identifyFreeModels ms) \<noteq> []
             \<or> removedModels (freeModels prev) (identifyFreeModels ms) \<noteq> []"
  shows "runMonitoring rv env out w =
     (case barkOutcome rv out (changeTarget rv env out (kv w)) ''update'' of
        Inr u \<Rightarrow> (Inr (MonitorOk (length ms) (length (identifyFreeModels ms))
                         (toISOString (reply_time out))),
                  storedWorld out ms w
                    (targetEvents rv env out (kv w) @
                     barkEvents rv out (changeTarget rv env out (kv w))
                       (changeNotice (freeModels prev) (identifyFreeModels ms)) ''update''))
      | Inl e \<Rightarrow> monitoringError rv env out e
                  (storedWorld out ms w
                    (targetEvents rv env out (kv w) @
                     barkEvents rv out (changeTarget rv env out (kv w))
                       (changeNotice (freeModels prev) (identifyFreeModels ms)) ''update'')))"
  unfolding success_path [OF f ne p] l
  by (simp add: catch_def seq_def bnd_def ret_def detect_exact [OF ch] logged_def storedWorld_def
      changeTarget_stored targetEvents_stored split: sum.splits)

lemma loadOutcome_stored:
  "kv_get_error out ''models_data'' = None \<Longrightarrow> models_data k = Some (Json (SnapshotDoc prev))
   \<Longrightarrow> loadOutcome out k = Some (SnapshotDoc prev)"
  by (simp add: loadOutcome_def)

lemma loadEvents_stored:
  "kv_get_error out ''models_data'' = None \<Longrightarrow> models_data k = Some (Json d)
   \<Longrightarrow> loadEvents out k = [KvGet ''models_data'']"
  by (simp add: loadEvents_def)

lemma barkEvents_failed:
  assumes "configured url" "bark out category = BarkReply st tx" "\<not> statusOk st"
  shows "barkEvents rv out url body category =
     BarkGet (baseUrl rv (the url)) category body # ConsoleError ''Bark notification failed:'' #
     (case rv of RevA \<Rightarrow> [] | RevB \<Rightarrow> [ConsoleError ''Error sending Bark notification:''])"
  using assms by (simp add: barkEvents_def split: revision.splits)

lemma barkOutcome_failed:
  assumes "configured url" "bark out category = BarkReply st tx" "\<not> statusOk st"
  shows "barkOutcome rv out url category = (case rv of RevA \<Rightarrow> Inr () | RevB \<Rightarrow> Inl (BarkFailed st tx))"
  using assms by (simp add: barkOutcome_def split: revision.splits)

lemma targetEvents_quiet:
  "list_all (\<lambda>e. \<not> isNotification e \<and> \<not> isWrite e) (targetEvents rv env out k)"
  by (simp add: targetEvents_def settingsTargetEvents_def split: revision.splits option.splits json_text.splits)

lemma barkEvents_category:
  "list_all (\<lambda>e. isNotification e \<longrightarrow> (\<exists>u. e = BarkGet u category body))
     (barkEvents rv out url body category)"
  by (simp add: barkEvents_def split: revision.splits bark_reply.splits)

lemma filter_change_quiet:
  "list_all (\<lambda>e. \<not> isNotification e) evs \<Longrightarrow> filter isChangeNotification evs = []"
  by (induction evs) (auto simp: not_change_if_not_notification)

lemma filter_change_error:
  "filter isChangeNotification (barkEvents rv out url body ''error'') = []"
proof -
  have "\<not> isChangeNotification e" if "e \<in> set (barkEvents rv out url body ''error'')" for e
  proof (cases "isNotification e")
    case True
    with barkEvents_category [of "''error''" body rv out url] that
    obtain u where "e = BarkGet u ''error'' body" by (auto simp: list_all_iff)
    then show ?thesis by simp
  next
    case False
    then show ?thesis by (rule not_change_if_not_notification)
  qed
  then show ?thesis by (simp add: filter_empty_conv)
qed

text \<open>The scheduled handler and the manual route.\<close>

lemma scheduled_reads_fail:
  assumes "readsFail out"
  shows "\<exists>e evs. scheduled rv env out w = (Inr (Crashed e), logged w evs)
           \<and> list_all (\<lambda>ev. ev \<noteq> CatalogGet \<and> \<not> isWrite ev) evs"
proof (cases "kv_get_error out ''app_settings''")
  case (Some msg)
  then have "scheduled rv env out w = (Inr (Crashed (Thrown msg)),
      logged w [KvGet ''app_settings'', ConsoleError ''Scheduled monitoring error:''])"
    unfolding scheduled_def kvGet_def
    by (simp add: catch_def seq_def bnd_def emit_def throw_def ret_def logged_def)
  then show ?thesis by auto
next
  case None
  have both: "scheduled rv env out w = (Inr (Crashed (Thrown msg)),
      logged w (readEvents @ [ConsoleError ''Scheduled monitoring error:'']))"
    if "kv_get_error out ''last_monitor_trigger'' = Some msg
        \<or> (kv_get_error out ''last_monitor_trigger'' = None \<and> kv_get_error out ''last_update'' = Some msg)"
    for msg
    using that unfolding scheduled_def kvGet_def kvGetBoth_def
    by (auto simp: None catch_def seq_def bnd_def emit_def throw_def ret_def logged_def readEvents_def)
  from assms None obtain msg where "kv_get_error out ''last_monitor_trigger'' = Some msg
        \<or> (kv_get_error out ''last_monitor_trigger'' = None \<and> kv_get_error out ''last_update'' = Some msg)"
    by (cases "kv_get_error out ''last_monitor_trigger''") (auto simp: readsFail_def)
  from both [OF this] show ?thesis by (auto simp: readEvents_def)
qed

lemma scheduled_exact:
  assumes "\<not> readsFail out"
  shows "scheduled rv env out w =
     (if \<not> shouldRun (trigger_time out) (last_monitor_trigger (kv w)) (last_update (kv w))
             (configuredInterval env (kv w))
      then (Inr Skipped, logged w readEvents)
      else (case kv_put_error out ''last_monitor_trigger'' of
              Some msg \<Rightarrow>
                (Inr (Crashed (Thrown msg)),
                 logged w (readEvents @ [KvPutFailed ''last_monitor_trigger'',
                                         ConsoleError ''Scheduled monitoring error:'']))
            | None \<Rightarrow> scheduledTail (runMonitoring rv env out (acceptedWorld out w))))"
proof -
  from assms have g: "kv_get_error out ''app_settings'' = None"
    "kv_get_error out ''last_monitor_trigger'' = None" "kv_get_error out ''last_update'' = None"
    by (simp_all add: readsFail_def)
  obtain r w2 where run: "runMonitoring rv env out (acceptedWorld out w) = (r, w2)"
    by (cases "runMonitoring rv env out (acceptedWorld out w)")
  show ?thesis
  proof (cases "shouldRun (trigger_time out) (last_monitor_trigger (kv w)) (last_update (kv w))
             (configuredInterval env (kv w))")
    case False
    then show ?thesis
      unfolding scheduled_def kvGet_def kvGetBoth_def configuredInterval_def
      by (simp add: g catch_def seq_def bnd_def emit_def ret_def logged_def readEvents_def Let_def)
  next
    case True
    show ?thesis
    proof (cases "kv_put_error out ''last_monitor_trigger''")
      case (Some msg)
      with True show ?thesis
        unfolding scheduled_def kvGet_def kvGetBoth_def kvPut_def configuredInterval_def
        by (simp add: g catch_def seq_def bnd_def emit_def ret_def throw_def logged_def
            readEvents_def Let_def)
    next
      case None
      have run': "runMonitoring rv env out
          (w\<lparr>kv := (kv w)\<lparr>last_monitor_trigger := Some (toISOString (trigger_time out))\<rparr>,
             trace := trace w @ [KvGet ''app_settings'', KvGet ''last_monitor_trigger'',
                                 KvGet ''last_update'',
                                 KvPutStamp ''last_monitor_trigger'' (toISOString (trigger_time out))]\<rparr>)
          = (r, w2)"
        using run by (simp add: acceptedWorld_def readEvents_def)
      from True None show ?thesis
        unfolding scheduled_def kvGet_def kvGetBoth_def kvPut_def configuredInterval_def
        by (simp add: g catch_def seq_def bnd_def emit_def ret_def throw_def Let_def run run'
            scheduledTail_def logged_def split: sum.splits)
    qed
  qed
qed

lemma run_starts_with_fetch:
  "\<exists>evs. trace (snd (runMonitoring rv env out w)) = trace w @ CatalogGet # evs"
proof -
  let ?K = "keeps (\<lambda>e. True) (\<lambda>k. ()) (\<lambda>u. False)"
  have me: "?K (monitoringError rv env out e)" for e
    by (rule keeps_monitoringError) simp_all
  have al: "?K (afterLoad rv env out ms p)" for ms p
    by (rule keeps_afterLoad) simp_all
  have ca: "?K (catch (afterLoad rv env out ms p) (monitoringError rv env out))" for ms p
    by (intro keeps_catch al me)
  have ext: "\<exists>evs. trace (snd (m (logged w (CatalogGet # es)))) = trace w @ CatalogGet # evs"
    if "?K m" for m :: "response job" and es
  proof -
    from that have "steps (\<lambda>e. True) (\<lambda>k. ()) (\<lambda>u. False) (logged w (CatalogGet # es))
        (snd (m (logged w (CatalogGet # es))))"
      unfolding keeps_def by blast
    then show ?thesis unfolding steps_def by auto
  qed
  show ?thesis
  proof (cases "fetchOutcome out")
    case (Inl e)
    with ext [OF me, of e "[]"] show ?thesis unfolding runMonitoring_cases by simp
  next
    case (Inr ms)
    show ?thesis
    proof (cases "ms = []")
      case True
      with Inr ext [OF me, of NoModels "[]"] show ?thesis unfolding runMonitoring_cases by simp
    next
      case False
      with Inr ext [OF ca, of ms "loadOutcome out (kv w)" "loadEvents out (kv w)"]
      show ?thesis unfolding runMonitoring_cases by simp
    qed
  qed
qed

lemma run_keeps_trigger:
  "keeps (monitorEvent out) last_monitor_trigger (\<lambda>v. False) (runMonitoring rv env out)"
  by (rule keeps_runMonitoring) simp_all

lemma monitoringError_not_ok: "monitoringError rv env out e w \<noteq> (Inr (MonitorOk a b c), w')"
  by (simp add: monitoringError_exact split: sum.splits)

lemma store_fails:
  assumes "kv_put_error out ''models_data'' \<noteq> None \<or> kv_put_error out ''last_update'' \<noteq> None"
  shows "\<exists>e ws. storeModelsData out data w = (Inl e, ws)"
  using assms unfolding storeModelsData_def kvPut_def
  by (cases "kv_put_error out ''models_data''"; cases "kv_put_error out ''last_update''")
     (simp_all add: catch_def seq_def bnd_def emit_def throw_def)

lemma run_success_stamp:
  assumes run: "runMonitoring rv env out w = (Inr (MonitorOk a b c), w')"
  shows "last_update (kv w') = Some (toISOString (snapshot_time out))"
proof -
  let ?K = "keeps (\<lambda>e. True) last_update (\<lambda>v. False)"
  have me: "?K (monitoringError rv env out e)" for e
    by (rule keeps_monitoringError) simp_all
  from run obtain ms where f: "fetchOutcome out = Inr ms" and ne: "ms \<noteq> []"
    unfolding runMonitoring_cases
    by (auto simp: monitoringError_not_ok split: sum.splits if_splits)
  let ?w1 = "logged w (CatalogGet # loadEvents out (kv w))"
  let ?rest = "seq (case loadOutcome out (kv w) of
               Some (SnapshotDoc prev) \<Rightarrow>
                 detectAndNotifyChanges rv env out (freeModels prev) (identifyFreeModels ms)
             | Some PartialDoc \<Rightarrow> ret ()
             | None \<Rightarrow> ret ())
          (ret (MonitorOk (length ms) (length (identifyFreeModels ms)) (toISOString (reply_time out))))"
  from run f ne have c: "catch (afterLoad rv env out ms (loadOutcome out (kv w)))
      (monitoringError rv env out) ?w1 = (Inr (MonitorOk a b c), w')"
    unfolding runMonitoring_cases by simp
  show ?thesis
  proof (cases "kv_put_error out ''models_data'' = None \<and> kv_put_error out ''last_update'' = None")
    case False
    then obtain e ws where "storeModelsData out (newSnapshot out ms) ?w1 = (Inl e, ws)"
      using store_fails [of out "newSnapshot out ms" ?w1] by blast
    with c have "monitoringError rv env out e ws = (Inr (MonitorOk a b c), w')"
      unfolding afterLoad_def by (simp add: catch_def seq_def bnd_def)
    then show ?thesis by (simp add: monitoringError_not_ok)
  next
    case True
    then have p: "kv_put_error out ''models_data'' = None" "kv_put_error out ''last_update'' = None"
      by simp_all
    let ?w2 = "?w1\<lparr>kv := (kv ?w1)\<lparr>models_data := Some (Json (SnapshotDoc (newSnapshot out ms))),
                                   last_update := Some (timestamp (newSnapshot out ms))\<rparr>,
                      trace := trace ?w1 @ [KvPutSnapshot (newSnapshot out ms),
                         KvPutStamp ''last_update'' (timestamp (newSnapshot out ms))]\<rparr>"
    from c have c2: "catch ?rest (monitoringError rv env out) ?w2 = (Inr (MonitorOk a b c), w')"
      unfolding afterLoad_def by (simp add: catch_def seq_def bnd_def store_ok [OF p])
    have d: "?K (case loadOutcome out (kv w) of
               Some (SnapshotDoc prev) \<Rightarrow>
                 detectAndNotifyChanges rv env out (freeModels prev) (identifyFreeModels ms)
             | Some PartialDoc \<Rightarrow> ret ()
             | None \<Rightarrow> ret ())"
      by (simp add: keeps_ret keeps_detect split: option.splits models_doc.splits)
    have "?K (catch ?rest (monitoringError rv env out))"
      by (intro keeps_catch keeps_seq d keeps_ret me)
    from keepsD(3) [OF this c2] show ?thesis
      by (simp add: timestamp_newSnapshot)
  qed
qed

lemma fetchMonitorRun_exact:
  "fetchMonitorRun rv env out w =
     (case fst (runMonitoring rv env out w) of
        Inl e \<Rightarrow> (Inr (InternalError (''Internal server error: '' @ message e)),
                  logged (snd (runMonitoring rv env out w)) [ConsoleError ''Worker error:''])
      | Inr response \<Rightarrow> (Inr response, snd (runMonitoring rv env out w)))"
  unfolding fetchMonitorRun_def
  by (cases "runMonitoring rv env out w")
     (simp add: catch_def seq_def bnd_def emit_def ret_def logged_def split: sum.splits)

lemma readEvents_no_fetch: "CatalogGet \<notin> set readEvents"
  by (simp add: readEvents_def)

lemma scheduled_accepted:
  assumes nf: "\<not> readsFail out"
    and sr: "shouldRun (trigger_time out) (last_monitor_trigger (kv w)) (last_update (kv w))
               (configuredInterval env (kv w))"
    and p: "kv_put_error out ''last_monitor_trigger'' = None"
    and run: "scheduled rv env out w = (r, w')"
  shows "\<exists>post. newEvents w w' = readEvents @
            KvPutStamp ''last_monitor_trigger'' (toISOString (trigger_time out)) # CatalogGet # post"
    and "last_monitor_trigger (kv w') = Some (toISOString (trigger_time out))"
    and "\<exists>e response. r = Inr (Crashed e) \<or> r = Inr (Ran response)"
proof -
  let ?aw = "acceptedWorld out w"
  obtain r2 w2 where r2: "runMonitoring rv env out ?aw = (r2, w2)"
    by (cases "runMonitoring rv env out ?aw")
  from run scheduled_exact [OF nf, of rv env w] sr p
  have st: "scheduledTail (r2, w2) = (r, w')" by (simp add: r2)
  from run_starts_with_fetch [of rv env out ?aw] r2
  obtain evs where t2: "trace w2 = trace ?aw @ CatalogGet # evs" by auto
  from keepsD(3) [OF run_keeps_trigger r2]
  have k2: "last_monitor_trigger (kv w2) = Some (toISOString (trigger_time out))"
    by (simp add: acceptedWorld_def)
  from st obtain tl where w': "trace w' = trace w2 @ tl" "kv w' = kv w2"
    unfolding scheduledTail_def by (auto split: sum.splits if_splits)
  from w' t2 show "\<exists>post. newEvents w w' = readEvents @
            KvPutStamp ''last_monitor_trigger'' (toISOString (trigger_time out)) # CatalogGet # post"
    by (simp add: newEvents_def acceptedWorld_def)
  from w' k2 show "last_monitor_trigger (kv w') = Some (toISOString (trigger_time out))" by simp
  from st show "\<exists>e response. r = Inr (Crashed e) \<or> r = Inr (Ran response)"
    unfolding scheduledTail_def by (auto split: sum.splits)
qed

lemma scheduled_not_accepted:
  assumes "readsFail out
      \<or> \<not> shouldRun (trigger_time out) (last_monitor_trigger (kv w)) (last_update (kv w))
               (configuredInterval env (kv w))
      \<or> kv_put_error out ''last_monitor_trigger'' \<noteq> None"
    and run: "scheduled rv env out w = (r, w')"
  shows "CatalogGet \<notin> set (newEvents w w')" and "kv w' = kv w"
    and "r \<noteq> Inr (Ran response)"
    and "\<not> readsFail out \<Longrightarrow>
         \<not> shouldRun (trigger_time out) (last_monitor_trigger (kv w)) (last_update (kv w))
               (configuredInterval env (kv w)) \<Longrightarrow> r = Inr Skipped"
proof -
  have "CatalogGet \<notin> set (newEvents w w') \<and> kv w' = kv w \<and> r \<noteq> Inr (Ran response)
      \<and> (\<not> readsFail out \<longrightarrow>
         \<not> shouldRun (trigger_time out) (last_monitor_trigger (kv w)) (last_update (kv w))
               (configuredInterval env (kv w)) \<longrightarrow> r = Inr Skipped)"
  proof (cases "readsFail out")
    case True
    from scheduled_reads_fail [OF True, of rv env w] run
    obtain e evs where "r = Inr (Crashed e)" "w' = logged w evs"
      "list_all (\<lambda>ev. ev \<noteq> CatalogGet \<and> \<not> isWrite ev) evs" by auto
    with True show ?thesis by (auto simp: newEvents_def list_all_iff)
  next
    case False
    show ?thesis
    proof (cases "shouldRun (trigger_time out) (last_monitor_trigger (kv w)) (last_update (kv w))
               (configuredInterval env (kv w))")
      case sr: False
      with run scheduled_exact [OF False, of rv env w]
      have "r = Inr Skipped" "w' = logged w readEvents" by simp_all
      then show ?thesis by (simp add: newEvents_def readEvents_def)
    next
      case sr: True
      with assms(1) False obtain msg where "kv_put_error out ''last_monitor_trigger'' = Some msg"
        by auto
      with run scheduled_exact [OF False, of rv env w] sr
      have "r = Inr (Crashed (Thrown msg))"
        "w' = logged w (readEvents @ [KvPutFailed ''last_monitor_trigger'',
                                         ConsoleError ''Scheduled monitoring error:''])"
        by simp_all
      with sr show ?thesis by (simp add: newEvents_def readEvents_def)
    qed
  qed
  then show "CatalogGet \<notin> set (newEvents w w')" and "kv w' = kv w"
    and "r \<noteq> Inr (Ran response)"
    and "\<not> readsFail out \<Longrightarrow>
         \<not> shouldRun (trigger_time out) (last_monitor_trigger (kv w)) (last_update (kv w))
               (configuredInterval env (kv w)) \<Longrightarrow> r = Inr Skipped"
    by simp_all
qed

lemma sample_free: "identifyFreeModels [itemB2, itemC, paidItem] = [itemB2, itemC]"
  by (simp add: identifyFreeModels_def isFree_def itemB2_def itemC_def paidItem_def endsWith_def
      priceOf_def js_or_def parse_defs)

lemma cold_run_sample:
  assumes "models_data (kv w) = None"
  shows "runMonitoring rv env outOk w =
     (Inr (MonitorOk 3 2 (DateText 1700000000300)),
      w\<lparr>kv := (kv w)\<lparr>models_data := Some (Json (SnapshotDoc (newSnapshot outOk [itemB2, itemC, paidItem]))),
                        last_update := Some (DateText 1700000000250)\<rparr>,
         trace := trace w @ [CatalogGet, KvGet ''models_data'',
                     KvPutSnapshot (newSnapshot outOk [itemB2, itemC, paidItem]),
                     KvPutStamp ''last_update'' (DateText 1700000000250)]\<rparr>)"
proof -
  have ne: "[itemB2, itemC, paidItem] \<noteq> []" by simp
  from assms have c: "noPreviousSnapshot outOk (kv w)" by (simp add: noPreviousSnapshot_def)
  from assms have l: "loadEvents outOk (kv w) = [KvGet ''models_data'']"
    by (simp add: loadEvents_def outOk_def)
  have t: "toISOString (snapshot_time outOk) = DateText 1700000000250"
    "toISOString (reply_time outOk) = DateText 1700000000300"
    by (simp_all add: toISOString_def outOk_def)
  show ?thesis
    unfolding cold_success_path [OF fetchOutcome_outOk ne puts_outOk c] sample_free t l
    by simp
qed

lemma reads_outOk: "\<not> readsFail outOk" "\<not> readsFail outLater"
  by (simp_all add: readsFail_def outOk_def outLater_def)

lemma scheduled_sample:
  "scheduled RevA envBark outOk worldEmpty =
     (Inr (Ran (MonitorOk 3 2 (DateText 1700000000300))),
      \<lparr>kv = kvEmpty\<lparr>last_monitor_trigger := Some (DateText 1700000000000),
                    models_data := Some (Json (SnapshotDoc (newSnapshot outOk [itemB2, itemC, paidItem]))),
                    last_update := Some (DateText 1700000000250)\<rparr>,
       trace = readEvents @ [KvPutStamp ''last_monitor_trigger'' (DateText 1700000000000),
                CatalogGet, KvGet ''models_data'',
                KvPutSnapshot (newSnapshot outOk [itemB2, itemC, paidItem]),
                KvPutStamp ''last_update'' (DateText 1700000000250)]\<rparr>)"
proof -
  have sr: "shouldRun (trigger_time outOk) (last_monitor_trigger (kv worldEmpty))
      (last_update (kv worldEmpty)) (configuredInterval envBark (kv worldEmpty))"
    by (simp add: worldEmpty_def kvEmpty_def shouldRun_unfold lastRun_None)
  have p: "kv_put_error outOk ''last_monitor_trigger'' = None" by (simp add: outOk_def)
  have m: "models_data (kv (acceptedWorld outOk worldEmpty)) = None"
    by (simp add: acceptedWorld_def worldEmpty_def kvEmpty_def)
  have t: "toISOString (trigger_time outOk) = DateText 1700000000000"
    by (simp add: toISOString_def outOk_def)
  show ?thesis
    unfolding scheduled_exact [OF reads_outOk(1)] cold_run_sample [OF m]
    using sr by (simp add: p scheduledTail_def acceptedWorld_def worldEmpty_def t)
qed

lemma manual_sample:
  "fetchMonitorRun RevA envBark outOk worldRecent =
     (Inr (MonitorOk 3 2 (DateText 1700000000300)),
      \<lparr>kv = kvEmpty\<lparr>last_monitor_trigger := Some (DateText 1699999999000),
                    models_data := Some (Json (SnapshotDoc (newSnapshot outOk [itemB2, itemC, paidItem]))),
                    last_update := Some (DateText 1700000000250)\<rparr>,
       trace = [CatalogGet, KvGet ''models_data'',
                KvPutSnapshot (newSnapshot outOk [itemB2, itemC, paidItem]),
                KvPutStamp ''last_update'' (DateText 1700000000250)]\<rparr>)"
proof -
  have m: "models_data (kv worldRecent) = None" by (simp add: worldRecent_def kvEmpty_def)
  show ?thesis
    unfolding fetchMonitorRun_exact cold_run_sample [OF m]
    by (simp add: worldRecent_def kvEmpty_def)
qed

section \<open>The snapshot invariant\<close>

text \<open>
  Claim C9. Every snapshot a monitoring run writes satisfies the invariant: its free
  items are the order-preserving filter of its full list by \<open>isFree\<close>, and its count
  is the length of the full list. The same holds for the snapshot held by the store
  after the run, when the run changed it.
\<close>

theorem persisted_snapshot_invariant:
  assumes "runMonitoring rv env out w = (r, w')"
  shows "(\<forall>s. KvPutSnapshot s \<in> set (newEvents w w') \<longrightarrow> snapshotInvariant s)
    \<and> (models_data (kv w') = models_data (kv w)
       \<or> (\<exists>s. models_data (kv w') = Some (Json (SnapshotDoc s)) \<and> snapshotInvariant s))"
proof -
  note k = keepsD [OF run_keeps_snapshots assms]
  have "snapshotInvariant s" if "KvPutSnapshot s \<in> set (newEvents w w')" for s
  proof -
    from k(2) that have "monitorEvent out (KvPutSnapshot s)" by (simp add: list_all_iff)
    then have "s = newSnapshot out (allModels s)" by (simp add: monitorEvent_def)
    then show ?thesis by (metis newSnapshot_invariant)
  qed
  moreover from k(3) have "models_data (kv w') = models_data (kv w)
       \<or> (\<exists>s. models_data (kv w') = Some (Json (SnapshotDoc s)) \<and> snapshotInvariant s)"
    using newSnapshot_invariant by blast
  ultimately show ?thesis by blast
qed

theorem persisted_snapshot_invariant_witness:
  "KvPutSnapshot (newSnapshot outOk [itemB2, itemC, paidItem])
     \<in> set (newEvents worldEmpty (snd (runMonitoring RevA envBark outOk worldEmpty)))
   \<and> snapshotInvariant (newSnapshot outOk [itemB2, itemC, paidItem])
   \<and> freeModels (newSnapshot outOk [itemB2, itemC, paidItem]) = [itemB2, itemC]
   \<and> totalModels (newSnapshot outOk [itemB2, itemC, paidItem]) = 3"
proof -
  have e: "KvPutSnapshot (newSnapshot outOk [itemB2, itemC, paidItem])
     \<in> set (newEvents worldEmpty (snd (runMonitoring RevA envBark outOk worldEmpty)))"
    unfolding cold_run_outOk by (simp add: newEvents_def worldEmpty_def)
  have f: "identifyFreeModels [itemB2, itemC, paidItem] = [itemB2, itemC]"
    by (simp add: identifyFreeModels_def isFree_def itemB2_def itemC_def paidItem_def endsWith_def
        priceOf_def js_or_def parse_defs)
  from persisted_snapshot_invariant [OF cold_run_outOk] e have "snapshotInvariant (newSnapshot outOk [itemB2, itemC, paidItem])"
    unfolding cold_run_outOk by (simp add: newEvents_def worldEmpty_def)
  with e f show ?thesis
    by (simp add: newSnapshot_def)
qed

section \<open>Cold start\<close>

text \<open>
  Claim C4. In a run with no previous snapshot (none stored, or the read of the stored one
  fails) no change notification is sent, whatever else happens in the run; and when the
  catalog fetch and both writes succeed, the run answers success, the new snapshot and
  its time stamp are stored, and no notification at all is sent.
\<close>

theorem cold_start:
  assumes c: "noPreviousSnapshot out (kv w)" and run: "runMonitoring rv env out w = (r, w')"
  shows "(\<forall>e \<in> set (newEvents w w'). \<not> isChangeNotification e)
    \<and> (\<forall>st txt ms.
          catalog out = HttpReply st txt (BodyJson (Some ms)) \<and> statusOk st \<and> ms \<noteq> []
          \<and> kv_put_error out ''models_data'' = None \<and> kv_put_error out ''last_update'' = None
        \<longrightarrow> r = Inr (MonitorOk (length ms) (length (identifyFreeModels ms))
                       (toISOString (reply_time out)))
            \<and> models_data (kv w') = Some (Json (SnapshotDoc (newSnapshot out ms)))
            \<and> last_update (kv w') = Some (toISOString (snapshot_time out))
            \<and> KvPutSnapshot (newSnapshot out ms) \<in> set (newEvents w w')
            \<and> (\<forall>e \<in> set (newEvents w w'). \<not> isNotification e))"
proof -
  from cold_run_steps [OF c, of rv env] run
  obtain evs where e: "trace w' = trace w @ evs" "list_all (\<lambda>e. \<not> isChangeNotification e) evs"
    unfolding steps_def by auto
  then have 1: "\<forall>e \<in> set (newEvents w w'). \<not> isChangeNotification e"
    by (simp add: newEvents_def list_all_iff)
  have 2: "r = Inr (MonitorOk (length ms) (length (identifyFreeModels ms))
                       (toISOString (reply_time out)))
            \<and> models_data (kv w') = Some (Json (SnapshotDoc (newSnapshot out ms)))
            \<and> last_update (kv w') = Some (toISOString (snapshot_time out))
            \<and> KvPutSnapshot (newSnapshot out ms) \<in> set (newEvents w w')
            \<and> (\<forall>e \<in> set (newEvents w w'). \<not> isNotification e)"
    if h: "catalog out = HttpReply st tx (BodyJson (Some ms))" "statusOk st" "ms \<noteq> []"
      "kv_put_error out ''models_data'' = None" "kv_put_error out ''last_update'' = None"
    for st tx ms
  proof -
    note p = cold_success_path [OF fetchOutcome_ok [OF h(1,2)] h(3,4,5) c, of rv env]
    from run p have r: "r = Inr (MonitorOk (length ms) (length (identifyFreeModels ms))
                       (toISOString (reply_time out)))"
      and w': "w' = w\<lparr>kv := (kv w)\<lparr>models_data := Some (Json (SnapshotDoc (newSnapshot out ms))),
                        last_update := Some (toISOString (snapshot_time out))\<rparr>,
         trace := trace w @ CatalogGet # loadEvents out (kv w) @
                     [KvPutSnapshot (newSnapshot out ms),
                      KvPutStamp ''last_update'' (toISOString (snapshot_time out))]\<rparr>"
      by simp_all
    from loadEvents_quiet [of out "kv w"] show ?thesis
      unfolding r w' by (simp add: newEvents_def list_all_iff)
  qed
  from 1 2 show ?thesis by blast
qed

theorem cold_start_witness:
  "noPreviousSnapshot outOk (kv worldEmpty)
   \<and> fst (runMonitoring RevA envBark outOk worldEmpty) = Inr (MonitorOk 3 2 (DateText 1700000000300))
   \<and> models_data (kv (snd (runMonitoring RevA envBark outOk worldEmpty)))
       = Some (Json (SnapshotDoc (newSnapshot outOk [itemB2, itemC, paidItem])))
   \<and> filter isNotification (newEvents worldEmpty (snd (runMonitoring RevA envBark outOk worldEmpty))) = []
   \<and> filter isChangeNotification
         (newEvents worldEmpty (snd (runMonitoring RevA envBark outOk worldEmpty))) = []
   \<and> noPreviousSnapshot outReadFails (kv worldStored)
   \<and> fst (runMonitoring RevB envBark outReadFails worldStored)
       = Inr (MonitorOk 3 2 (DateText 1700000000300))
   \<and> models_data (kv (snd (runMonitoring RevB envBark outReadFails worldStored)))
       = Some (Json (SnapshotDoc (newSnapshot outReadFails [itemB2, itemC, paidItem])))
   \<and> filter isNotification
         (newEvents worldStored (snd (runMonitoring RevB envBark outReadFails worldStored))) = []"
proof -
  have c: "catalog outOk = HttpReply 200 ''OK'' (BodyJson (Some [itemB2, itemC, paidItem]))"
    "statusOk 200" "[itemB2, itemC, paidItem] \<noteq> []"
    by (simp_all add: outOk_def statusOk_def)
  have f: "identifyFreeModels [itemB2, itemC, paidItem] = [itemB2, itemC]"
    by (simp add: identifyFreeModels_def isFree_def itemB2_def itemC_def paidItem_def endsWith_def
        priceOf_def js_or_def parse_defs)
  have t: "toISOString (reply_time outOk) = DateText 1700000000300"
    by (simp add: toISOString_def outOk_def)
  from cold_start [OF noPrevious_empty prod.collapse [symmetric], of RevA envBark] c puts_outOk
  have first: "fst (runMonitoring RevA envBark outOk worldEmpty) = Inr (MonitorOk 3 2 (DateText 1700000000300))
   \<and> models_data (kv (snd (runMonitoring RevA envBark outOk worldEmpty)))
       = Some (Json (SnapshotDoc (newSnapshot outOk [itemB2, itemC, paidItem])))
   \<and> filter isNotification (newEvents worldEmpty (snd (runMonitoring RevA envBark outOk worldEmpty))) = []
   \<and> filter isChangeNotification
         (newEvents worldEmpty (snd (runMonitoring RevA envBark outOk worldEmpty))) = []"
    using f t by (auto simp: filter_empty_conv)
  have n2: "noPreviousSnapshot outReadFails (kv worldStored)"
    by (simp add: noPreviousSnapshot_def outReadFails_def)
  have c2: "catalog outReadFails = HttpReply 200 ''OK'' (BodyJson (Some [itemB2, itemC, paidItem]))"
    by (simp add: outReadFails_def outOk_def)
  have p2: "kv_put_error outReadFails ''models_data'' = None"
    "kv_put_error outReadFails ''last_update'' = None"
    by (simp_all add: outReadFails_def outOk_def)
  have t2: "toISOString (reply_time outReadFails) = DateText 1700000000300"
    by (simp add: toISOString_def outReadFails_def outOk_def)
  from cold_start [OF n2 prod.collapse [symmetric], of RevB envBark] c2 c(2,3) p2
  have second: "fst (runMonitoring RevB envBark outReadFails worldStored)
       = Inr (MonitorOk 3 2 (DateText 1700000000300))
   \<and> models_data (kv (snd (runMonitoring RevB envBark outReadFails worldStored)))
       = Some (Json (SnapshotDoc (newSnapshot outReadFails [itemB2, itemC, paidItem])))
   \<and> filter isNotification
         (newEvents worldStored (snd (runMonitoring RevB envBark outReadFails worldStored))) = []"
    using f t2 by (auto simp: filter_empty_conv)
  from noPrevious_empty n2 first second show ?thesis by simp
qed
section \<open>A failed catalog fetch\<close>

text \<open>
  Claim C7, for \<^verbatim>\<open>src/worker/monitor.js\<close> (RevA). When the catalog fetch fails, by a
  rejected request or by a reply whose status is not a success, the run answers
  \<^verbatim>\<open>success: false\<close> with the message of the failure, which for a reply holds the
  status; the store is left as it was and nothing is written; an error notification is
  sent when \<^verbatim>\<open>BARK_API_URL\<close> is bound, and no notification otherwise.
\<close>

theorem fetch_failure_aborts:
  assumes f: "fetchFailure out = Some e" and run: "runMonitoring RevA env out w = (r, w')"
  shows "r = Inr (MonitorFailed (message e) (toISOString (reply_time out)))
    \<and> (\<forall>st tx. e = ApiError st tx \<longrightarrow> (\<exists>pre post. message e = pre @ showNat st @ post))
    \<and> kv w' = kv w
    \<and> (\<forall>ev \<in> set (newEvents w w'). \<not> isWrite ev)
    \<and> (configured (BARK_API_URL env) \<longrightarrow>
         BarkGet (the (BARK_API_URL env)) ''error'' (ErrorNotice (''Monitoring failed: '' @ message e))
           \<in> set (newEvents w w'))
    \<and> (\<not> configured (BARK_API_URL env) \<longrightarrow> (\<forall>ev \<in> set (newEvents w w'). \<not> isNotification ev))"
proof -
  let ?be = "barkEvents RevA out (BARK_API_URL env) (ErrorNotice (''Monitoring failed: '' @ message e)) ''error''"
  from run fetch_failure_path [OF f, of RevA env w]
  have r: "r = Inr (MonitorFailed (message e) (toISOString (reply_time out)))"
    and w': "w' = logged w (CatalogGet # ConsoleError ''Monitoring error:'' # ?be)"
    by (simp_all add: barkOutcome_RevA)
  have n: "newEvents w w' = CatalogGet # ConsoleError ''Monitoring error:'' # ?be"
    by (simp add: w' newEvents_def)
  have m: "\<exists>pre post. message e = pre @ showNat st @ post" if "e = ApiError st tx" for st tx
    using that by (metis message.simps(1))
  have q: "\<forall>ev \<in> set (newEvents w w'). \<not> isWrite ev"
    using barkEvents_quiet [of RevA out "BARK_API_URL env" _ "''error''"]
    by (simp add: n list_all_iff)
  have c: "BarkGet (the (BARK_API_URL env)) ''error'' (ErrorNotice (''Monitoring failed: '' @ message e))
           \<in> set (newEvents w w')" if "configured (BARK_API_URL env)"
  proof -
    from barkEvents_first [OF that, of RevA out "ErrorNotice (''Monitoring failed: '' @ message e)" "''error''"]
    obtain evs where "?be = BarkGet (the (BARK_API_URL env)) ''error''
        (ErrorNotice (''Monitoring failed: '' @ message e)) # evs"
      unfolding baseUrl_def by auto
    then show ?thesis unfolding n by simp
  qed
  have u: "\<forall>ev \<in> set (newEvents w w'). \<not> isNotification ev" if "\<not> configured (BARK_API_URL env)"
    by (simp add: n barkEvents_none [OF that])
  from r m q c u show ?thesis by (auto simp: w')
qed

theorem fetch_failure_aborts_witness:
  "fetchFailure out429 = Some (ApiError 429 ''Too Many Requests'')
   \<and> fst (runMonitoring RevA envBark out429 worldEmpty)
       = Inr (MonitorFailed ''OpenRouter API error: 429 Too Many Requests'' (DateText 1700000000300))
   \<and> kv (snd (runMonitoring RevA envBark out429 worldEmpty)) = kvEmpty
   \<and> BarkGet ''https://api.day.app/KEY/'' ''error''
        (ErrorNotice ''Monitoring failed: OpenRouter API error: 429 Too Many Requests'')
       \<in> set (newEvents worldEmpty (snd (runMonitoring RevA envBark out429 worldEmpty)))"
proof -
  have f: "fetchFailure out429 = Some (ApiError 429 ''Too Many Requests'')"
    by (simp add: fetchFailure_def out429_def outOk_def statusOk_def)
  have s: "showNat 429 = ''429''" by code_simp
  have t: "toISOString (reply_time out429) = DateText 1700000000300"
    by (simp add: toISOString_def out429_def outOk_def)
  have c: "configured (BARK_API_URL envBark)" "the (BARK_API_URL envBark) = ''https://api.day.app/KEY/''"
    by (simp_all add: envBark_def)
  from fetch_failure_aborts [OF f prod.collapse [symmetric], of envBark worldEmpty] c
  show ?thesis by (simp add: f s t worldEmpty_def)
qed

text \<open>In RevB \<^verbatim>\<open>sendBarkNotification\<close> throws again what it logged: when the error
  notification fails as well, the run itself throws.\<close>

lemma fetch_failure_RevB_throws:
  assumes f: "fetchFailure out = Some e" and c: "configured (BARK_API_URL env)"
    and b: "bark out ''error'' = BarkReply st tx" "\<not> statusOk st"
  shows "fst (runMonitoring RevB env out w) = Inl (BarkFailed st tx)"
  unfolding fetch_failure_path [OF f]
  using c b by (simp add: barkOutcome_def)

section \<open>A failed change notification\<close>

text \<open>
  Claim C8, as stated, fails in the revision it cites (RevB): the reply 500 of the
  notification target to the change notification is thrown by
  \<^verbatim>\<open>sendBarkNotification\<close>, reaches the \<^verbatim>\<open>catch\<close> block of \<^verbatim>\<open>runMonitoring\<close>,
  and the run answers \<^verbatim>\<open>success: false\<close>, while the snapshot stays stored.
\<close>

theorem notification_failure_counterexample:
  "fst (runMonitoring RevB envBark outBarkDown worldStored)
     = Inr (MonitorFailed (barkFailedLabel @ ''500 Internal Server Error'') (DateText 1700000000300))
   \<and> models_data (kv (snd (runMonitoring RevB envBark outBarkDown worldStored)))
       = Some (Json (SnapshotDoc (newSnapshot outBarkDown [itemB2, itemC, paidItem])))"
proof -
  have f: "fetchOutcome outBarkDown = Inr [itemB2, itemC, paidItem]"
    by (simp add: fetchOutcome_def outBarkDown_def outOk_def statusOk_def)
  have ne: "[itemB2, itemC, paidItem] \<noteq> []" by simp
  have p: "kv_put_error outBarkDown ''models_data'' = None"
    "kv_put_error outBarkDown ''last_update'' = None"
    by (simp_all add: outBarkDown_def outOk_def)
  have l: "loadOutcome outBarkDown (kv worldStored) = Some (SnapshotDoc previousSnapshot)"
    by (simp add: loadOutcome_def outBarkDown_def outOk_def worldStored_def kvEmpty_def)
  have fr: "identifyFreeModels [itemB2, itemC, paidItem] = [itemB2, itemC]"
    by (simp add: identifyFreeModels_def isFree_def itemB2_def itemC_def paidItem_def endsWith_def
        priceOf_def js_or_def parse_defs)
  have ch: "addedModels (freeModels previousSnapshot) (identifyFreeModels [itemB2, itemC, paidItem]) \<noteq> []
      \<or> removedModels (freeModels previousSnapshot) (identifyFreeModels [itemB2, itemC, paidItem]) \<noteq> []"
    unfolding fr by (simp add: previousSnapshot_def addedModels_def idSet_def itemA_def itemB_def itemB2_def itemC_def)
  have t: "changeTarget RevB envBark outBarkDown (kv worldStored) = Some ''https://api.day.app/KEY/''"
    by (simp add: changeTarget_def envBark_def)
  have bu: "barkOutcome RevB outBarkDown (Some ''https://api.day.app/KEY/'') ''update''
      = Inl (BarkFailed 500 ''Internal Server Error'')"
    by (simp add: barkOutcome_def outBarkDown_def statusOk_def)
  have be: "barkOutcome RevB outBarkDown (BARK_API_URL envBark) ''error'' = Inr ()"
    by (simp add: barkOutcome_def outBarkDown_def envBark_def statusOk_def)
  have s: "showNat 500 = ''500''" by code_simp
  have rt: "toISOString (reply_time outBarkDown) = DateText 1700000000300"
    by (simp add: toISOString_def outBarkDown_def outOk_def)
  show ?thesis
    unfolding warm_path [OF f ne p l ch] t bu
    by (simp add: monitoringError_exact be s rt storedWorld_def)
qed

text \<open>
  Claim C8, amended. When the snapshot was written, the free items changed, a target is
  configured and the target answers the change notification with a status that is not a
  success: the failure is logged, the change notification is sent once and not again,
  and the stored snapshot and time stamp stay as written. In RevA the failure is
  swallowed and the run answers success. In RevB the failure is thrown: the
  \<^verbatim>\<open>catch\<close> block of the run logs it, sends an error notification when
  \<^verbatim>\<open>BARK_API_URL\<close> is bound, and the run answers \<^verbatim>\<open>success: false\<close> with the message
  of the failed delivery; when that error notification fails too, the run throws.
\<close>

theorem notification_failure:
  assumes fetch: "catalog out = HttpReply cs ctx (BodyJson (Some ms))" "statusOk cs" "ms \<noteq> []"
    and puts: "kv_put_error out ''models_data'' = None" "kv_put_error out ''last_update'' = None"
    and prev: "kv_get_error out ''models_data'' = None"
              "models_data (kv w) = Some (Json (SnapshotDoc prev))"
    and changed: "addedModels (freeModels prev) (identifyFreeModels ms) \<noteq> []
                  \<or> removedModels (freeModels prev) (identifyFreeModels ms) \<noteq> []"
    and target: "configured (changeTarget rv env out (kv w))"
    and fails: "bark out ''update'' = BarkReply st tx" "\<not> statusOk st"
    and run: "runMonitoring rv env out w = (r, w')"
  shows "models_data (kv w') = Some (Json (SnapshotDoc (newSnapshot out ms)))
    \<and> last_update (kv w') = Some (toISOString (snapshot_time out))
    \<and> filter isChangeNotification (newEvents w w')
        = [BarkGet (baseUrl rv (the (changeTarget rv env out (kv w)))) ''update''
             (changeNotice (freeModels prev) (identifyFreeModels ms))]
    \<and> ConsoleError ''Bark notification failed:'' \<in> set (newEvents w w')
    \<and> (rv = RevA \<longrightarrow> r = Inr (MonitorOk (length ms) (length (identifyFreeModels ms))
                                  (toISOString (reply_time out))))
    \<and> (rv = RevB \<longrightarrow>
         r = (case barkOutcome RevB out (BARK_API_URL env) ''error'' of
                Inl e \<Rightarrow> Inl e
              | Inr u \<Rightarrow> Inr (MonitorFailed (message (BarkFailed st tx))
                                (toISOString (reply_time out))))
         \<and> (\<forall>total free ts. r \<noteq> Inr (MonitorOk total free ts)))"
proof -
  let ?tgt = "changeTarget rv env out (kv w)"
  let ?note = "changeNotice (freeModels prev) (identifyFreeModels ms)"
  let ?ce = "targetEvents rv env out (kv w) @ barkEvents rv out ?tgt ?note ''update''"
  note path = warm_path [OF fetchOutcome_ok [OF fetch(1,2)] fetch(3) puts
      loadOutcome_stored [OF prev] changed, of rv env]
  note bo = barkOutcome_failed [OF target fails, of rv]
  note be = barkEvents_failed [OF target fails, of rv ?note]
  have tq: "filter isChangeNotification (targetEvents rv env out (kv w)) = []"
    using targetEvents_quiet [of rv env out "kv w"]
    by (intro filter_change_quiet) (simp add: list_all_iff)
  have lq: "filter isChangeNotification (loadEvents out (kv w)) = []"
    by (intro filter_change_quiet loadEvents_quiet)
  have cb: "filter isChangeNotification (barkEvents rv out ?tgt ?note ''update'')
      = [BarkGet (baseUrl rv (the ?tgt)) ''update'' ?note]"
    unfolding be by (simp split: revision.splits)
  have lg: "ConsoleError ''Bark notification failed:'' \<in> set ?ce"
    unfolding be by simp
  show ?thesis
  proof (cases rv)
    case RevA
    with run path bo have r: "r = Inr (MonitorOk (length ms) (length (identifyFreeModels ms))
                                  (toISOString (reply_time out)))"
      and w': "w' = storedWorld out ms w ?ce" by simp_all
    have n: "newEvents w w' = CatalogGet # loadEvents out (kv w) @
                   [KvPutSnapshot (newSnapshot out ms),
                    KvPutStamp ''last_update'' (toISOString (snapshot_time out))] @ ?ce"
      by (simp add: w' storedWorld_def newEvents_def)
    from lg have lg': "ConsoleError ''Bark notification failed:'' \<in> set (newEvents w w')"
      unfolding n set_append set_simps by blast
    have fc: "filter isChangeNotification (newEvents w w')
        = [BarkGet (baseUrl rv (the ?tgt)) ''update'' ?note]"
      unfolding n by (simp add: lq tq cb)
    from r lg' fc RevA show ?thesis by (simp add: w' storedWorld_def)
  next
    case RevB
    let ?err = "ConsoleError ''Monitoring error:'' #
                barkEvents rv out (BARK_API_URL env)
                  (ErrorNotice (''Monitoring failed: '' @ message (BarkFailed st tx))) ''error''"
    from run path bo RevB
    have r: "r = (case barkOutcome RevB out (BARK_API_URL env) ''error'' of
                Inl e \<Rightarrow> Inl e
              | Inr u \<Rightarrow> Inr (MonitorFailed (message (BarkFailed st tx))
                                (toISOString (reply_time out))))"
      and w': "w' = logged (storedWorld out ms w ?ce) ?err"
      by (simp_all add: monitoringError_exact)
    have n: "newEvents w w' = CatalogGet # loadEvents out (kv w) @
                   [KvPutSnapshot (newSnapshot out ms),
                    KvPutStamp ''last_update'' (toISOString (snapshot_time out))] @ ?ce @ ?err"
      by (simp add: w' storedWorld_def newEvents_def)
    from lg have lg': "ConsoleError ''Bark notification failed:'' \<in> set (newEvents w w')"
      unfolding n set_append set_simps by blast
    have fc: "filter isChangeNotification (newEvents w w')
        = [BarkGet (baseUrl rv (the ?tgt)) ''update'' ?note]"
      unfolding n by (simp add: lq tq cb filter_change_error)
    from r have nok: "\<forall>total free ts. r \<noteq> Inr (MonitorOk total free ts)"
      by (simp split: sum.splits)
    from r nok lg' fc RevB show ?thesis by (simp add: w' storedWorld_def)
  qed
qed

theorem notification_failure_witness:
  "fst (runMonitoring RevB envBark outBarkDown worldStored)
     = Inr (MonitorFailed (message (BarkFailed 500 ''Internal Server Error'')) (DateText 1700000000300))
   \<and> fst (runMonitoring RevA envBark outBarkDown worldStored)
     = Inr (MonitorOk 3 2 (DateText 1700000000300))
   \<and> models_data (kv (snd (runMonitoring RevB envBark outBarkDown worldStored)))
     = Some (Json (SnapshotDoc (newSnapshot outBarkDown [itemB2, itemC, paidItem])))
   \<and> filter isChangeNotification
         (newEvents worldStored (snd (runMonitoring RevB envBark outBarkDown worldStored)))
     = [BarkGet ''https://api.day.app/KEY/'' ''update'' (ChangeNotice [Some ''C:free''] [Some ''A''])]"
proof -
  have c: "catalog outBarkDown = HttpReply 200 ''OK'' (BodyJson (Some [itemB2, itemC, paidItem]))"
    "statusOk 200" "[itemB2, itemC, paidItem] \<noteq> []"
    by (simp_all add: outBarkDown_def outOk_def statusOk_def)
  have p: "kv_put_error outBarkDown ''models_data'' = None"
    "kv_put_error outBarkDown ''last_update'' = None"
    by (simp_all add: outBarkDown_def outOk_def)
  have l: "kv_get_error outBarkDown ''models_data'' = None"
    "models_data (kv worldStored) = Some (Json (SnapshotDoc previousSnapshot))"
    by (simp_all add: outBarkDown_def outOk_def worldStored_def kvEmpty_def)
  have fr: "identifyFreeModels [itemB2, itemC, paidItem] = [itemB2, itemC]"
    by (simp add: identifyFreeModels_def isFree_def itemB2_def itemC_def paidItem_def endsWith_def
        priceOf_def js_or_def parse_defs)
  have ad: "addedModels [itemA, itemB] [itemB2, itemC] = [itemC]"
    "removedModels [itemA, itemB] [itemB2, itemC] = [itemA]"
    by (simp_all add: addedModels_def removedModels_def idSet_def itemA_def itemB_def itemB2_def itemC_def)
  have pf: "freeModels previousSnapshot = [itemA, itemB]"
    by (simp add: previousSnapshot_def)
  have ch: "addedModels (freeModels previousSnapshot) (identifyFreeModels [itemB2, itemC, paidItem]) \<noteq> []
      \<or> removedModels (freeModels previousSnapshot) (identifyFreeModels [itemB2, itemC, paidItem]) \<noteq> []"
    unfolding fr pf ad by simp
  have t: "changeTarget rv envBark outBarkDown (kv worldStored) = Some ''https://api.day.app/KEY/''" for rv
    by (cases rv) (simp_all add: changeTarget_def envBark_def)
  have tc: "configured (changeTarget rv envBark outBarkDown (kv worldStored))" for rv
    by (simp add: t)
  have b: "bark outBarkDown ''update'' = BarkReply 500 ''Internal Server Error''" "\<not> statusOk 500"
    by (simp_all add: outBarkDown_def statusOk_def)
  have be: "barkOutcome RevB outBarkDown (BARK_API_URL envBark) ''error'' = Inr ()"
    by (simp add: barkOutcome_def outBarkDown_def envBark_def statusOk_def)
  have rt: "toISOString (reply_time outBarkDown) = DateText 1700000000300"
    by (simp add: toISOString_def outBarkDown_def outOk_def)
  have nt: "changeNotice (freeModels previousSnapshot) [itemB2, itemC]
      = ChangeNotice [Some ''C:free''] [Some ''A'']"
    unfolding pf changeNotice_def ad by (simp add: displayName_def itemA_def itemC_def)
  have bu: "baseUrl RevB ''https://api.day.app/KEY/'' = ''https://api.day.app/KEY/''"
    by (simp add: baseUrl_def endsWith_def)
  from notification_failure [OF c p l ch tc b prod.collapse [symmetric], of RevB]
       notification_failure [OF c p l ch tc b prod.collapse [symmetric], of RevA]
  show ?thesis
    by (simp add: be rt nt t bu fr)
qed
section \<open>The scheduled trigger\<close>

text \<open>
  Claim C6. In every invocation of the scheduled handler the catalog fetch, when it
  happens, comes right after the write of \<^verbatim>\<open>last_monitor_trigger\<close> with the time of
  this trigger, which follows the three reads; the store holds that stamp afterwards,
  and an accepted run does fetch. A second trigger that finds this stamp in the store
  less than the interval later does not run: no fetch, the store unchanged, and the
  outcome is a skip unless one of its reads throws. The time of the first trigger is
  taken after the epoch, as a stamp of \<open>0\<close> counts as none.
\<close>

theorem trigger_written_before_fetch:
  assumes run: "scheduled rv env out w = (r, w')"
  shows "(CatalogGet \<in> set (newEvents w w') \<longrightarrow>
            (\<exists>post. newEvents w w' = readEvents @
               KvPutStamp ''last_monitor_trigger'' (toISOString (trigger_time out)) # CatalogGet # post)
            \<and> last_monitor_trigger (kv w') = Some (toISOString (trigger_time out)))
    \<and> (\<forall>response. r = Inr (Ran response) \<longrightarrow> CatalogGet \<in> set (newEvents w w'))
    \<and> (\<forall>rv2 env2 out2 w2.
          last_monitor_trigger (kv w2) = Some (toISOString (trigger_time out))
          \<and> 0 < trigger_time out
          \<and> trigger_time out2 - trigger_time out
               < clampInterval (configuredInterval env2 (kv w2)) * 60000
        \<longrightarrow> (\<forall>response. fst (scheduled rv2 env2 out2 w2) \<noteq> Inr (Ran response))
            \<and> (\<not> readsFail out2 \<longrightarrow> fst (scheduled rv2 env2 out2 w2) = Inr Skipped)
            \<and> kv (snd (scheduled rv2 env2 out2 w2)) = kv w2
            \<and> CatalogGet \<notin> set (newEvents w2 (snd (scheduled rv2 env2 out2 w2))))"
proof -
  let ?acc = "\<not> readsFail out
      \<and> shouldRun (trigger_time out) (last_monitor_trigger (kv w)) (last_update (kv w))
               (configuredInterval env (kv w))
      \<and> kv_put_error out ''last_monitor_trigger'' = None"
  have 1: "(\<exists>post. newEvents w w' = readEvents @
               KvPutStamp ''last_monitor_trigger'' (toISOString (trigger_time out)) # CatalogGet # post)
            \<and> last_monitor_trigger (kv w') = Some (toISOString (trigger_time out))"
    if "CatalogGet \<in> set (newEvents w w')"
  proof (cases ?acc)
    case True
    then have t: "\<not> readsFail out"
      "shouldRun (trigger_time out) (last_monitor_trigger (kv w)) (last_update (kv w))
               (configuredInterval env (kv w))"
      "kv_put_error out ''last_monitor_trigger'' = None" by simp_all
    from scheduled_accepted(1) [OF t run] scheduled_accepted(2) [OF t run]
    show ?thesis by (rule conjI)
  next
    case False
    then have "readsFail out
      \<or> \<not> shouldRun (trigger_time out) (last_monitor_trigger (kv w)) (last_update (kv w))
               (configuredInterval env (kv w))
      \<or> kv_put_error out ''last_monitor_trigger'' \<noteq> None" by auto
    from scheduled_not_accepted(1) [OF this run] that show ?thesis by simp
  qed
  have 2: "CatalogGet \<in> set (newEvents w w')" if "r = Inr (Ran response)" for response
  proof (cases ?acc)
    case True
    then have t: "\<not> readsFail out"
      "shouldRun (trigger_time out) (last_monitor_trigger (kv w)) (last_update (kv w))
               (configuredInterval env (kv w))"
      "kv_put_error out ''last_monitor_trigger'' = None" by simp_all
    from scheduled_accepted(1) [OF t run] obtain post where
      "newEvents w w' = readEvents @
            KvPutStamp ''last_monitor_trigger'' (toISOString (trigger_time out)) # CatalogGet # post"
      by blast
    then show ?thesis by simp
  next
    case False
    then have "readsFail out
      \<or> \<not> shouldRun (trigger_time out) (last_monitor_trigger (kv w)) (last_update (kv w))
               (configuredInterval env (kv w))
      \<or> kv_put_error out ''last_monitor_trigger'' \<noteq> None" by auto
    from scheduled_not_accepted(3) [OF this run] that show ?thesis by blast
  qed
  have 3: "(\<forall>response. fst (scheduled rv2 env2 out2 w2) \<noteq> Inr (Ran response))
            \<and> (\<not> readsFail out2 \<longrightarrow> fst (scheduled rv2 env2 out2 w2) = Inr Skipped)
            \<and> kv (snd (scheduled rv2 env2 out2 w2)) = kv w2
            \<and> CatalogGet \<notin> set (newEvents w2 (snd (scheduled rv2 env2 out2 w2)))"
    if h: "last_monitor_trigger (kv w2) = Some (toISOString (trigger_time out))"
      "0 < trigger_time out"
      "trigger_time out2 - trigger_time out < clampInterval (configuredInterval env2 (kv w2)) * 60000"
    for rv2 env2 out2 w2
  proof -
    have ns: "\<not> shouldRun (trigger_time out2) (last_monitor_trigger (kv w2)) (last_update (kv w2))
               (configuredInterval env2 (kv w2))"
      unfolding h(1) by (rule shouldRun_after_trigger [OF h(2,3)])
    then have d: "readsFail out2
      \<or> \<not> shouldRun (trigger_time out2) (last_monitor_trigger (kv w2)) (last_update (kv w2))
               (configuredInterval env2 (kv w2))
      \<or> kv_put_error out2 ''last_monitor_trigger'' \<noteq> None" by simp
    note n = scheduled_not_accepted [OF d prod.collapse [symmetric], of rv2]
    from n(1,2) n(3) n(4) ns show ?thesis by blast
  qed
  from 1 2 3 show ?thesis by blast
qed

theorem trigger_written_before_fetch_witness:
  "fst (scheduled RevA envBark outOk worldEmpty) = Inr (Ran (MonitorOk 3 2 (DateText 1700000000300)))
   \<and> CatalogGet \<in> set (newEvents worldEmpty (snd (scheduled RevA envBark outOk worldEmpty)))
   \<and> take 5 (newEvents worldEmpty (snd (scheduled RevA envBark outOk worldEmpty)))
       = [KvGet ''app_settings'', KvGet ''last_monitor_trigger'', KvGet ''last_update'',
          KvPutStamp ''last_monitor_trigger'' (DateText 1700000000000), CatalogGet]
   \<and> last_monitor_trigger (kv (snd (scheduled RevA envBark outOk worldEmpty)))
       = Some (DateText 1700000000000)
   \<and> fst (scheduled RevA envBark outLater (snd (scheduled RevA envBark outOk worldEmpty)))
       = Inr Skipped
   \<and> CatalogGet \<notin> set (newEvents (snd (scheduled RevA envBark outOk worldEmpty))
        (snd (scheduled RevA envBark outLater (snd (scheduled RevA envBark outOk worldEmpty)))))"
proof -
  let ?S = "scheduled RevA envBark outOk worldEmpty"
  note th = trigger_written_before_fetch
    [where rv = RevA and env = envBark and out = outOk and w = worldEmpty,
     OF prod.collapse [symmetric]]
  have r: "fst ?S = Inr (Ran (MonitorOk 3 2 (DateText 1700000000300)))"
    by (simp add: scheduled_sample)
  with th have c: "CatalogGet \<in> set (newEvents worldEmpty (snd ?S))" by blast
  with th obtain post where n: "newEvents worldEmpty (snd ?S) = readEvents @
      KvPutStamp ''last_monitor_trigger'' (toISOString (trigger_time outOk)) # CatalogGet # post"
    and k: "last_monitor_trigger (kv (snd ?S)) = Some (toISOString (trigger_time outOk))"
    by blast
  have t: "toISOString (trigger_time outOk) = DateText 1700000000000" "0 < trigger_time outOk"
    by (simp_all add: toISOString_def outOk_def)
  have i: "trigger_time outLater - trigger_time outOk
      < clampInterval (configuredInterval envBark (kv (snd ?S))) * 60000"
    unfolding scheduled_sample
    by (simp add: outLater_def outOk_def configuredInterval_def kvEmpty_def
        settingsInterval_def envInterval_def envBark_def clampInterval_def)
  from th k t(2) i reads_outOk(2)
  have s: "fst (scheduled RevA envBark outLater (snd ?S)) = Inr Skipped
      \<and> CatalogGet \<notin> set (newEvents (snd ?S) (snd (scheduled RevA envBark outLater (snd ?S))))"
    by blast
  from r c n k s show ?thesis by (simp add: t readEvents_def)
qed

section \<open>The manual trigger\<close>

text \<open>
  Claim C10. The route \<^verbatim>\<open>/api/monitor/run\<close> runs the monitor in every world: its first
  event is the catalog fetch, it neither reads \<^verbatim>\<open>last_monitor_trigger\<close> or
  \<^verbatim>\<open>last_update\<close> nor writes \<^verbatim>\<open>last_monitor_trigger\<close>, which the store keeps as it
  was. A successful manual run writes \<^verbatim>\<open>last_update\<close> with the time of its snapshot,
  and a scheduled trigger that comes less than the interval after that time is skipped.
\<close>

theorem manual_run_unthrottled:
  assumes run: "fetchMonitorRun rv env out w = (r, w')"
  shows "(\<exists>evs. newEvents w w' = CatalogGet # evs)
    \<and> list_all (\<lambda>e. \<not> isThrottleAccess e) (newEvents w w')
    \<and> last_monitor_trigger (kv w') = last_monitor_trigger (kv w)
    \<and> (\<forall>total free ts. r = Inr (MonitorOk total free ts) \<longrightarrow>
          last_update (kv w') = Some (toISOString (snapshot_time out))
          \<and> (\<forall>rv2 env2 out2.
                snapshot_time out \<noteq> 0 \<and> \<not> readsFail out2
                \<and> trigger_time out2 - snapshot_time out
                     < clampInterval (configuredInterval env2 (kv w')) * 60000
              \<longrightarrow> fst (scheduled rv2 env2 out2 w') = Inr Skipped))"
proof -
  obtain r1 w1 where r1: "runMonitoring rv env out w = (r1, w1)"
    by (cases "runMonitoring rv env out w")
  from run r1 obtain tl where w': "trace w' = trace w1 @ tl" "kv w' = kv w1"
    "list_all (\<lambda>e. \<not> isThrottleAccess e) tl"
    and r: "\<And>resp. r = Inr resp \<Longrightarrow> r1 = Inr resp \<or> (\<exists>m. resp = InternalError m)"
    unfolding fetchMonitorRun_exact by (auto simp: logged_def split: sum.splits)
  from run_starts_with_fetch [of rv env out w] r1
  obtain evs where t1: "trace w1 = trace w @ CatalogGet # evs" by auto
  note k = keepsD [OF run_keeps_trigger r1]
  have a: "\<exists>evs. newEvents w w' = CatalogGet # evs"
    using w'(1) t1 by (simp add: newEvents_def)
  have "\<not> isThrottleAccess e" if "monitorEvent out e" for e
  proof (cases e)
    case (KvGet key)
    with that have "key = ''models_data'' \<or> key = ''app_settings''" by (simp add: monitorEvent_def)
    then have "key \<noteq> ''last_monitor_trigger'' \<and> key \<noteq> ''last_update''"
      by (rule disjE) simp_all
    with KvGet show ?thesis by simp
  next
    case (KvPutStamp key v)
    with that have "key = ''last_update''" by (simp add: monitorEvent_def)
    with KvPutStamp show ?thesis by simp
  next
    case (KvPutFailed key)
    with that have "key = ''models_data'' \<or> key = ''last_update''" by (simp add: monitorEvent_def)
    then have "key \<noteq> ''last_monitor_trigger''" by (rule disjE) simp_all
    with KvPutFailed show ?thesis by simp
  qed simp_all
  with k(2) have "list_all (\<lambda>e. \<not> isThrottleAccess e) (newEvents w w1)"
    by (simp add: list_all_iff)
  moreover have "newEvents w w' = newEvents w w1 @ tl"
    using w'(1) t1 by (simp add: newEvents_def)
  ultimately have b: "list_all (\<lambda>e. \<not> isThrottleAccess e) (newEvents w w')"
    using w'(3) by simp
  from k(3) w'(2) have c: "last_monitor_trigger (kv w') = last_monitor_trigger (kv w)" by simp
  have d: "last_update (kv w') = Some (toISOString (snapshot_time out))
          \<and> (\<forall>rv2 env2 out2.
                snapshot_time out \<noteq> 0 \<and> \<not> readsFail out2
                \<and> trigger_time out2 - snapshot_time out
                     < clampInterval (configuredInterval env2 (kv w')) * 60000
              \<longrightarrow> fst (scheduled rv2 env2 out2 w') = Inr Skipped)"
    if ok: "r = Inr (MonitorOk total free ts)" for total free ts
  proof -
    from r [OF ok] have "r1 = Inr (MonitorOk total free ts)" by auto
    from run_success_stamp [OF r1 [unfolded this]] w'(2)
    have lu: "last_update (kv w') = Some (toISOString (snapshot_time out))" by simp
    have "fst (scheduled rv2 env2 out2 w') = Inr Skipped"
      if h: "snapshot_time out \<noteq> 0" "\<not> readsFail out2"
        "trigger_time out2 - snapshot_time out
                     < clampInterval (configuredInterval env2 (kv w')) * 60000"
      for rv2 env2 out2
    proof -
      have "\<not> shouldRun (trigger_time out2) (last_monitor_trigger (kv w')) (last_update (kv w'))
               (configuredInterval env2 (kv w'))"
        unfolding lu by (rule shouldRun_after_update [OF h(1,3)])
      then show ?thesis by (simp add: scheduled_exact [OF h(2)])
    qed
    with lu show ?thesis by blast
  qed
  from a b c d show ?thesis by blast
qed

theorem manual_run_unthrottled_witness:
  "fst (scheduled RevA envBark outOk worldRecent) = Inr Skipped
   \<and> fst (fetchMonitorRun RevA envBark outOk worldRecent) = Inr (MonitorOk 3 2 (DateText 1700000000300))
   \<and> hd (newEvents worldRecent (snd (fetchMonitorRun RevA envBark outOk worldRecent))) = CatalogGet
   \<and> last_monitor_trigger (kv (snd (fetchMonitorRun RevA envBark outOk worldRecent)))
       = Some (DateText 1699999999000)
   \<and> last_update (kv (snd (fetchMonitorRun RevA envBark outOk worldRecent)))
       = Some (DateText 1700000000250)
   \<and> fst (scheduled RevA envBark outLater (snd (fetchMonitorRun RevA envBark outOk worldRecent)))
       = Inr Skipped"
proof -
  let ?F = "fetchMonitorRun RevA envBark outOk worldRecent"
  note th = manual_run_unthrottled
    [where rv = RevA and env = envBark and out = outOk and w = worldRecent,
     OF prod.collapse [symmetric]]
  have s0: "fst (scheduled RevA envBark outOk worldRecent) = Inr Skipped"
    unfolding scheduled_exact [OF reads_outOk(1)]
    by (simp add: worldRecent_def kvEmpty_def shouldRun_unfold lastRun_value stampValue_simps
        outOk_def configuredInterval_def settingsInterval_def envInterval_def envBark_def
        clampInterval_def)
  have r: "fst ?F = Inr (MonitorOk 3 2 (DateText 1700000000300))" by (simp add: manual_sample)
  from th obtain evs where n: "newEvents worldRecent (snd ?F) = CatalogGet # evs" by blast
  from th have k: "last_monitor_trigger (kv (snd ?F)) = last_monitor_trigger (kv worldRecent)"
    by blast
  have t: "toISOString (snapshot_time outOk) = DateText 1700000000250" "snapshot_time outOk \<noteq> 0"
    by (simp_all add: toISOString_def outOk_def)
  have i: "trigger_time outLater - snapshot_time outOk
      < clampInterval (configuredInterval envBark (kv (snd ?F))) * 60000"
    unfolding manual_sample
    by (simp add: outLater_def outOk_def configuredInterval_def kvEmpty_def
        settingsInterval_def envInterval_def envBark_def clampInterval_def)
  from th r t(2) i reads_outOk(2)
  have u: "last_update (kv (snd ?F)) = Some (toISOString (snapshot_time outOk))
      \<and> fst (scheduled RevA envBark outLater (snd ?F)) = Inr Skipped"
    by blast
  from s0 r n k u show ?thesis by (simp add: t worldRecent_def kvEmpty_def)
qed

end
